theory Spec2Isabelle
  imports Main "HOL-Library.AList" "HOL-Library.Multiset"
begin

section \<open>Python values, exceptions and control flow\<close>

text \<open>
  The exceptions the modelled code can raise. All of them derive from Python's
  \<open>Exception\<close>, so an \<open>except Exception\<close> clause catches each one. \<open>ConnectionError\<close>
  stands for any failure of the key-value store, \<open>ToolkitError\<close> for any failure of the
  ontology toolkit, \<open>DataError\<close> for a value the store client refuses to encode.
\<close>

datatype error =
    JSONDecodeError | KeyError | IndexError | TypeError | AttributeError | NameError
  | ZeroDivisionError | OSError | ConnectionError | ToolkitError | DataError

text \<open>
  What \<open>json.loads\<close> returns. An object is a Python dict in insertion order; numbers are
  the integers (floats are not modelled). Values are compared structurally.
\<close>

datatype json =
    JNull | JBool bool | JNum int | JStr string | JArr "json list"
  | JObj "(string \<times> json) list"

text \<open>An expression that raises is \<open>Inl\<close> of the exception; \<open>ebind\<close> sequences two.\<close>

definition ebind :: "error + 'a \<Rightarrow> ('a \<Rightarrow> error + 'b) \<Rightarrow> error + 'b" where
  "ebind m f = (case m of Inl e \<Rightarrow> Inl e | Inr x \<Rightarrow> f x)"

text \<open>
  A statement that mutates a state \<open>'s\<close> returns the state it leaves behind together with
  the exception it raised, if any: what was mutated before a raise stays mutated.
  \<open>on_value\<close> evaluates an expression inside a statement, \<open>and_then\<close> runs the next
  statement unless the previous one raised.
\<close>

definition on_value :: "error + 'a \<Rightarrow> 's \<Rightarrow> ('a \<Rightarrow> error option \<times> 's) \<Rightarrow> error option \<times> 's" where
  "on_value r st k = (case r of Inl e \<Rightarrow> (Some e, st) | Inr x \<Rightarrow> k x)"

definition and_then :: "error option \<times> 's \<Rightarrow> ('s \<Rightarrow> error option \<times> 's) \<Rightarrow> error option \<times> 's" where
  "and_then r k = (case r of (Some e, st) \<Rightarrow> (Some e, st) | (None, st) \<Rightarrow> k st)"

text \<open>\<open>[f(x) for x in xs]\<close> where \<open>f\<close> may raise.\<close>

fun emap :: "('a \<Rightarrow> error + 'b) \<Rightarrow> 'a list \<Rightarrow> error + 'b list" where
  "emap f [] = Inr []"
| "emap f (x # xs) = ebind (f x) (\<lambda>y. ebind (emap f xs) (\<lambda>ys. Inr (y # ys)))"

subsection \<open>Subscripts, attributes and string methods\<close>

text \<open>\<open>obj[key]\<close> with a string key: only a dict has string subscripts.\<close>

fun getitem :: "json \<Rightarrow> string \<Rightarrow> error + json" where
  "getitem (JObj kvs) k = (case map_of kvs k of None \<Rightarrow> Inl KeyError | Some v \<Rightarrow> Inr v)"
| "getitem _ k = Inl TypeError"

text \<open>
  \<open>obj[0]\<close>: the first element of a list, the first character of a string; a dict
  parsed from JSON has string keys only, so the key \<open>0\<close> is never present.
\<close>

fun getitem0 :: "json \<Rightarrow> error + json" where
  "getitem0 (JArr []) = Inl IndexError"
| "getitem0 (JArr (x # xs)) = Inr x"
| "getitem0 (JStr []) = Inl IndexError"
| "getitem0 (JStr (c # cs)) = Inr (JStr [c])"
| "getitem0 (JObj kvs) = Inl KeyError"
| "getitem0 _ = Inl TypeError"

text \<open>\<open>key in obj\<close> with a string key and a dict parsed from JSON.\<close>

fun contains_key :: "json \<Rightarrow> string \<Rightarrow> bool" where
  "contains_key (JObj kvs) k = (map_of kvs k \<noteq> None)"
| "contains_key _ k = False"

text \<open>\<open>for x in obj\<close>: the elements of a list, the characters of a string, the keys of a dict.\<close>

fun iterate :: "json \<Rightarrow> error + json list" where
  "iterate (JArr xs) = Inr xs"
| "iterate (JStr cs) = Inr (map (\<lambda>c. JStr [c]) cs)"
| "iterate (JObj kvs) = Inr (map (\<lambda>kv. JStr (fst kv)) kvs)"
| "iterate _ = Inl TypeError"

text \<open>\<open>str.upper()\<close> on the ASCII letters; a \<open>char\<close> is a byte.\<close>

definition upper_char :: "char \<Rightarrow> char" where
  "upper_char c =
     (case map_of (zip ''abcdefghijklmnopqrstuvwxyz'' ''ABCDEFGHIJKLMNOPQRSTUVWXYZ'') c of
        Some u \<Rightarrow> u
      | None \<Rightarrow> c)"

definition upper :: "string \<Rightarrow> string" where
  "upper s = map upper_char s"

text \<open>\<open>obj.upper()\<close>: only a str has the method.\<close>

fun str_upper :: "json \<Rightarrow> error + string" where
  "str_upper (JStr s) = Inr (upper s)"
| "str_upper _ = Inl AttributeError"

text \<open>\<open>obj.split(":")[0]\<close>: the text before the first colon (all of it when there is none).\<close>

fun split_colon_first :: "json \<Rightarrow> error + string" where
  "split_colon_first (JStr s) = Inr (takeWhile (\<lambda>c. c \<noteq> CHR '':'') s)"
| "split_colon_first _ = Inl AttributeError"

text \<open>A dict key must be hashable: lists and dicts are not.\<close>

fun hashable :: "json \<Rightarrow> bool" where
  "hashable (JArr xs) = False"
| "hashable (JObj kvs) = False"
| "hashable _ = True"

section \<open>The key-value store\<close>

text \<open>
  One database of the store: string values and lists, and whether it answers at all.
  A stored JSON text (\<open>json.dumps(x)\<close>) is represented by the value \<open>x\<close> it encodes; a
  stored str \<open>s\<close> by \<open>JStr s\<close>.
\<close>

record db =
  reachable :: bool
  kv :: "(string \<times> json) list"
  lists :: "(string \<times> json list) list"

datatype cmd = Set string json | Lpush string "json list"

text \<open>The store client encodes a str key as it is; other keys are never passed here.\<close>

fun redis_key :: "json \<Rightarrow> error + string" where
  "redis_key (JStr s) = Inr s"
| "redis_key _ = Inl DataError"

fun apply_cmd :: "cmd \<Rightarrow> db \<Rightarrow> db" where
  "apply_cmd (Set k v) d = d\<lparr>kv := AList.update k v (kv d)\<rparr>"
| "apply_cmd (Lpush k vs) d =
     d\<lparr>lists := AList.update k (rev vs @ (case map_of (lists d) k of None \<Rightarrow> [] | Some old \<Rightarrow> old)) (lists d)\<rparr>"

text \<open>
  Modelled from the spec: \<open>redis_adapter\<close> is not among the sources. Section 6 asks the
  store for a pipeline submission that executes a sequence of writes;
  \<open>RedisConnection.execute_pipeline\<close> applies the staged commands in the order they were
  staged, and an unreachable store raises and applies nothing.
\<close>

definition execute_pipeline :: "cmd list \<Rightarrow> db \<Rightarrow> error + db" where
  "execute_pipeline p d =
     (if reachable d then Inr (fold apply_cmd p d) else Inl ConnectionError)"

text \<open>
  \<open>mget\<close> as the tests' \<open>MockRedis\<close> has it (\<open>test_norm.py\<close>, lines 16-17): one answer per
  key, in the order of the keys, \<open>None\<close> for a key the store does not hold. A store that
  is not reachable raises.
\<close>

definition mget :: "db \<Rightarrow> string list \<Rightarrow> error + json option list" where
  "mget d keys = (if reachable d then Inr (map (map_of (kv d)) keys) else Inl ConnectionError)"

record connection_factory =
  eq_id_to_id_db :: db
  id_to_eqids_db :: db
  id_to_type_db :: db
  info_content_db :: db
  curie_to_bl_type_db :: db

section \<open>Compendium files and the ontology toolkit\<close>

text \<open>
  A line of a compendium file: its text, and what \<open>json.loads\<close> makes of it (\<open>None\<close> when
  it raises \<open>JSONDecodeError\<close>). A file system maps a file name to the lines of the file,
  or to \<open>None\<close> when the file cannot be opened.
\<close>

record line =
  raw :: string
  parsed :: "json option"

type_synonym filesystem = "string \<Rightarrow> line list option"

definition json_loads :: "line \<Rightarrow> error + json" where
  "json_loads l = (case parsed l of None \<Rightarrow> Inl JSONDecodeError | Some j \<Rightarrow> Inr j)"

definition open_file :: "filesystem \<Rightarrow> string \<Rightarrow> error + line list" where
  "open_file fs name = (case fs name of None \<Rightarrow> Inl OSError | Some ls \<Rightarrow> Inr ls)"

text \<open>
  The toolkit (\<open>bmt.Toolkit\<close>): \<open>tk_get_ancestors\<close> is \<open>toolkit.get_ancestors\<close>, the names
  of the ancestors of a type; \<open>tk_class_uri\<close> is \<open>toolkit.get_element(name)["class_uri"]\<close>.
\<close>

record toolkit =
  tk_get_ancestors :: "json \<Rightarrow> error + string list"
  tk_class_uri :: "string \<Rightarrow> error + json"

section \<open>Ingestion: \<open>load_compendium\<close> of \<open>load_compendium.py\<close>\<close>

text \<open>
  The local state of one call: the two dicts the function creates, the line counter,
  the four pipelines and the connections they write to.
\<close>

record lstate =
  ancestor_map :: "(json \<times> json list) list"
  source_prefixes :: "(json \<times> (string \<times> int) list) list"
  line_counter :: int
  term2id_pipeline :: "cmd list"
  id2eqids_pipeline :: "cmd list"
  id2type_pipeline :: "cmd list"
  info_content_pipeline :: "cmd list"
  conns :: connection_factory

text \<open>
  The nested function \<open>get_ancestors\<close> (lines 158-166): the memoised ancestor chain of a
  type, with the type itself put first when the toolkit's answer omits it. It returns
  a Python list.
\<close>

definition get_ancestors :: "toolkit \<Rightarrow> (json \<times> json list) list \<Rightarrow> json \<Rightarrow> error + (json list \<times> (json \<times> json list) list)" where
  "get_ancestors tk amap input_type =
     (if \<not> hashable input_type then Inl TypeError
      else case map_of amap input_type of
        Some ancs \<Rightarrow> Inr (ancs, amap)
      | None \<Rightarrow>
          ebind (tk_get_ancestors tk input_type) (\<lambda>a.
          ebind (emap (tk_class_uri tk) a) (\<lambda>ancs0.
          let ancs = (if input_type \<notin> set ancs0 then input_type # ancs0 else ancs0)
          in Inr (ancs, AList.update input_type ancs amap))))"

text \<open>
  \<open>semantic_types.add(semantic_type)\<close> (line 208): \<open>semantic_types\<close> is the list that
  \<open>get_ancestors\<close> returned, and a Python list has no attribute \<open>add\<close>.
\<close>

definition list_add :: "json list \<Rightarrow> json \<Rightarrow> error + unit" where
  "list_add xs x = Inl AttributeError"

text \<open>
  The body of the loop over the identifiers of the record (lines 216-231): count the
  prefix of the identifier under the semantic type, and stage the term-to-canonical
  write under the upper-cased identifier. The write under the identifier as it is
  written is commented out in the source (line 231).
\<close>

definition bump_prefix :: "json \<Rightarrow> string \<Rightarrow> (json \<times> (string \<times> int) list) list \<Rightarrow> error + (json \<times> (string \<times> int) list) list" where
  "bump_prefix semantic_type source_prefix sp =
     (case map_of sp semantic_type of
        None \<Rightarrow> Inl KeyError
      | Some counts \<Rightarrow>
          Inr (AList.update semantic_type
                 (case map_of counts source_prefix of
                    None \<Rightarrow> AList.update source_prefix 1 counts
                  | Some n \<Rightarrow> AList.update source_prefix (n + 1) counts) sp))"

definition stage_equivalent_id :: "json \<Rightarrow> json \<Rightarrow> json \<Rightarrow> lstate \<Rightarrow> error option \<times> lstate" where
  "stage_equivalent_id identifier semantic_type equivalent_id st =
     on_value (ebind (getitem equivalent_id ''i'') split_colon_first) st (\<lambda>source_prefix.
     on_value (bump_prefix semantic_type source_prefix (source_prefixes st)) st (\<lambda>sp.
     let st1 = st\<lparr>source_prefixes := sp\<rparr> in
     on_value (ebind (getitem equivalent_id ''i'') str_upper) st1 (\<lambda>key.
     (None, st1\<lparr>term2id_pipeline := term2id_pipeline st1 @ [Set key identifier]\<rparr>))))"

fun for_equivalent_ids :: "json \<Rightarrow> json \<Rightarrow> json list \<Rightarrow> lstate \<Rightarrow> error option \<times> lstate" where
  "for_equivalent_ids identifier semantic_type [] st = (None, st)"
| "for_equivalent_ids identifier semantic_type (e # es) st =
     and_then (stage_equivalent_id identifier semantic_type e st)
       (for_equivalent_ids identifier semantic_type es)"

text \<open>
  The rest of the body of the loop over the semantic types (lines 210-238), after the
  statement of line 208: create the prefix dict of the type, run the loop over the
  identifiers, and stage the three writes under the canonical identifier.
\<close>

definition stage_semantic_type :: "json \<Rightarrow> json \<Rightarrow> json \<Rightarrow> lstate \<Rightarrow> error option \<times> lstate" where
  "stage_semantic_type instance identifier semantic_type st =
     (if \<not> hashable semantic_type then (Some TypeError, st)
      else
        let st1 = (if map_of (source_prefixes st) semantic_type = None
                   then st\<lparr>source_prefixes := AList.update semantic_type [] (source_prefixes st)\<rparr>
                   else st) in
        on_value (ebind (getitem instance ''identifiers'') iterate) st1 (\<lambda>ids.
        and_then (for_equivalent_ids identifier semantic_type ids st1) (\<lambda>st2.
        on_value (getitem instance ''identifiers'') st2 (\<lambda>idents.
        on_value (redis_key identifier) st2 (\<lambda>key.
        let st3 = st2\<lparr>id2eqids_pipeline := id2eqids_pipeline st2 @ [Set key idents]\<rparr> in
        on_value (getitem instance ''type'') st3 (\<lambda>ty.
        let st4 = st3\<lparr>id2type_pipeline := id2type_pipeline st3 @ [Set key ty]\<rparr> in
        if contains_key instance ''ic''
        then on_value (getitem instance ''ic'') st4 (\<lambda>ic.
               (None, st4\<lparr>info_content_pipeline := info_content_pipeline st4 @ [Set key ic]\<rparr>))
        else (None, st4)))))))"

text \<open>
  The loop over the semantic types (lines 206-238). Its first statement is the call of
  line 208.
\<close>

fun for_semantic_types :: "json \<Rightarrow> json \<Rightarrow> json list \<Rightarrow> json list \<Rightarrow> lstate \<Rightarrow> error option \<times> lstate" where
  "for_semantic_types instance identifier semantic_types [] st = (None, st)"
| "for_semantic_types instance identifier semantic_types (t # ts) st =
     on_value (list_add semantic_types t) st (\<lambda>u.
     and_then (stage_semantic_type instance identifier t st)
       (for_semantic_types instance identifier semantic_types ts))"

text \<open>
  The four \<open>execute_pipeline\<close> calls, in the source's order. Each connection keeps what
  the calls before a failing one have written.
\<close>

definition execute_all :: "lstate \<Rightarrow> error option \<times> lstate" where
  "execute_all st =
     on_value (execute_pipeline (term2id_pipeline st) (eq_id_to_id_db (conns st))) st (\<lambda>d0.
     let st0 = st\<lparr>conns := (conns st)\<lparr>eq_id_to_id_db := d0\<rparr>\<rparr> in
     on_value (execute_pipeline (id2eqids_pipeline st0) (id_to_eqids_db (conns st0))) st0 (\<lambda>d1.
     let st1 = st0\<lparr>conns := (conns st0)\<lparr>id_to_eqids_db := d1\<rparr>\<rparr> in
     on_value (execute_pipeline (id2type_pipeline st1) (id_to_type_db (conns st1))) st1 (\<lambda>d2.
     let st2 = st1\<lparr>conns := (conns st1)\<lparr>id_to_type_db := d2\<rparr>\<rparr> in
     on_value (execute_pipeline (info_content_pipeline st2) (info_content_db (conns st2))) st2 (\<lambda>d3.
     (None, st2\<lparr>conns := (conns st2)\<lparr>info_content_db := d3\<rparr>\<rparr>)))))"

text \<open>
  The flush after a line (lines 240-252): \<open>line_counter % block_size\<close> is evaluated only
  when \<open>dry_run\<close> is false, and raises when the block size is zero. The pipelines are
  created anew after the flush.
\<close>

definition flush_block :: "int \<Rightarrow> bool \<Rightarrow> lstate \<Rightarrow> error option \<times> lstate" where
  "flush_block block_size dry_run st =
     (if dry_run then (None, st)
      else if block_size = 0 then (Some ZeroDivisionError, st)
      else if line_counter st mod block_size = 0
      then and_then (execute_all st) (\<lambda>st1.
             (None, st1\<lparr>term2id_pipeline := [], id2eqids_pipeline := [],
                         id2type_pipeline := [], info_content_pipeline := []\<rparr>))
      else (None, st))"

text \<open>The body of the loop over the lines of the file (lines 186-252).\<close>

definition process_line :: "toolkit \<Rightarrow> int \<Rightarrow> bool \<Rightarrow> line \<Rightarrow> lstate \<Rightarrow> error option \<times> lstate" where
  "process_line tk block_size dry_run l st =
     (let st1 = st\<lparr>line_counter := line_counter st + 1\<rparr> in
      on_value (json_loads l) st1 (\<lambda>instance.
      on_value (ebind (ebind (getitem instance ''identifiers'') getitem0) (\<lambda>first. getitem first ''i'')) st1 (\<lambda>identifier.
      on_value (getitem instance ''type'') st1 (\<lambda>ty.
      on_value (get_ancestors tk (ancestor_map st1) ty) st1 (\<lambda>(semantic_types, amap).
      let st2 = st1\<lparr>ancestor_map := amap\<rparr> in
      and_then (for_semantic_types instance identifier semantic_types semantic_types st2)
        (flush_block block_size dry_run))))))"

fun for_lines :: "toolkit \<Rightarrow> int \<Rightarrow> bool \<Rightarrow> line list \<Rightarrow> lstate \<Rightarrow> error option \<times> lstate" where
  "for_lines tk block_size dry_run [] st = (None, st)"
| "for_lines tk block_size dry_run (l # ls) st =
     and_then (process_line tk block_size dry_run l st) (for_lines tk block_size dry_run ls)"

definition initial_lstate :: "connection_factory \<Rightarrow> lstate" where
  "initial_lstate cf =
     \<lparr>ancestor_map = [], source_prefixes = [], line_counter = 0,
      term2id_pipeline = [], id2eqids_pipeline = [], id2type_pipeline = [],
      info_content_pipeline = [], conns = cf\<rparr>"

text \<open>
  The \<open>try\<close> block (lines 170-262): open the file, run the loop over its lines, flush
  what is still staged unless this is a dry run.
\<close>

definition load_compendium_try :: "filesystem \<Rightarrow> string \<Rightarrow> int \<Rightarrow> connection_factory \<Rightarrow> toolkit \<Rightarrow> bool \<Rightarrow> error option \<times> lstate" where
  "load_compendium_try fs compendium_filename block_size cf tk dry_run =
     (let st = initial_lstate cf in
      on_value (open_file fs compendium_filename) st (\<lambda>compendium.
      and_then (for_lines tk block_size dry_run compendium st) (\<lambda>st1.
      if dry_run then (None, st1) else execute_all st1)))"

text \<open>
  \<open>load_compendium\<close> (lines 149-268): \<open>except Exception\<close> turns every exception of the
  \<open>try\<close> block into the result \<open>False\<close>. The store is returned as the call leaves it.
\<close>

definition load_compendium :: "filesystem \<Rightarrow> string \<Rightarrow> int \<Rightarrow> connection_factory \<Rightarrow> toolkit \<Rightarrow> bool \<Rightarrow> bool \<times> connection_factory" where
  "load_compendium fs compendium_filename block_size cf tk dry_run =
     (case load_compendium_try fs compendium_filename block_size cf tk dry_run of
        (None, st) \<Rightarrow> (True, conns st)
      | (Some e, st) \<Rightarrow> (False, conns st))"

section \<open>Merging the per-file statistics: \<open>merge_semantic_meta_data\<close>\<close>

text \<open>
  The keys of the per-file partials: \<open>load\<close> writes them as \<open>file-\<close> followed by the file
  name, and the merge asks the store for \<open>file-*\<close>.
\<close>

definition is_file_key :: "string \<Rightarrow> bool" where
  "is_file_key k = (take 5 k = ''file-'')"

text \<open>
  Modelled from the spec: \<open>redis_adapter\<close> is not among the sources. Section 6 lists the
  store's operations; \<open>keys(pattern)\<close> answers with one list of matching keys per node of
  the store (the caller takes element \<open>[0]\<close>), and the store has one node here. A key
  occurs once in a key space.
\<close>

definition adapter_keys :: "db \<Rightarrow> error + string list list" where
  "adapter_keys d =
     (if reachable d then Inr [filter is_file_key (remdups (map fst (kv d)))]
      else Inl ConnectionError)"

text \<open>\<open>xs[0]\<close> on a Python list.\<close>

fun first_of :: "'a list \<Rightarrow> error + 'a" where
  "first_of [] = Inl IndexError"
| "first_of (x # xs) = Inr x"

text \<open>
  Lines 103-115: one \<open>get\<close> per key, executed at once; the answers that are there are
  parsed and put into \<open>all_meta_data\<close> under their keys. A stored text is represented by
  the JSON value it encodes, so parsing it is the identity.
\<close>

fun collect_meta_data :: "string list \<Rightarrow> json option list \<Rightarrow> (string \<times> json) list" where
  "collect_meta_data (k # ks) (Some datum # ds) = (k, datum) # collect_meta_data ks ds"
| "collect_meta_data (k # ks) (None # ds) = collect_meta_data ks ds"
| "collect_meta_data _ _ = []"

text \<open>\<open>obj.items()\<close>: only a dict has the method.\<close>

fun dict_items :: "json \<Rightarrow> error + (string \<times> json) list" where
  "dict_items (JObj kvs) = Inr kvs"
| "dict_items _ = Inl AttributeError"

text \<open>\<open>n + cnt\<close> for an int \<open>n\<close>: \<open>cnt\<close> must be a number; a bool counts as 0 or 1.\<close>

fun py_add :: "int \<Rightarrow> json \<Rightarrow> error + int" where
  "py_add n (JNum m) = Inr (n + m)"
| "py_add n (JBool b) = Inr (n + (if b then 1 else 0))"
| "py_add n _ = Inl TypeError"

text \<open>
  The innermost loop (lines 124-128) over the prefix counts of one type of one file;
  \<open>cnt\<close> is the source's \<open>count\<close>.
\<close>

fun add_curie_counts :: "(string \<times> json) list \<Rightarrow> (string \<times> int) list \<Rightarrow> error + (string \<times> int) list" where
  "add_curie_counts [] d = Inr d"
| "add_curie_counts ((curie_prefix, cnt) # rest) d =
     (let d1 = AList.update curie_prefix (case map_of d curie_prefix of None \<Rightarrow> 0 | Some n \<Rightarrow> n) d
      in ebind (py_add (case map_of d1 curie_prefix of None \<Rightarrow> 0 | Some n \<Rightarrow> n) cnt) (\<lambda>n.
         add_curie_counts rest (AList.update curie_prefix n d1)))"

text \<open>The loop over the types of one file (lines 121-128).\<close>

fun add_prefix_counts :: "(string \<times> json) list \<Rightarrow> (string \<times> (string \<times> int) list) list \<Rightarrow> error + (string \<times> (string \<times> int) list) list" where
  "add_prefix_counts [] sp = Inr sp"
| "add_prefix_counts ((bl_type, curie_counts) # rest) sp =
     (let sp1 = AList.update bl_type (case map_of sp bl_type of None \<Rightarrow> [] | Some d \<Rightarrow> d) sp
      in ebind (dict_items curie_counts) (\<lambda>items.
         ebind (add_curie_counts items (case map_of sp1 bl_type of None \<Rightarrow> [] | Some d \<Rightarrow> d)) (\<lambda>d.
         add_prefix_counts rest (AList.update bl_type d sp1))))"

text \<open>The loop over the files (lines 119-128), from \<open>sources_prefix\<close> as it stands.\<close>

fun merge_files :: "(string \<times> json) list \<Rightarrow> (string \<times> (string \<times> int) list) list \<Rightarrow> error + (string \<times> (string \<times> int) list) list" where
  "merge_files [] sp = Inr sp"
| "merge_files ((meta_data_key, data) # rest) sp =
     ebind (getitem data ''source_prefixes'') (\<lambda>prefix_counts.
     ebind (dict_items prefix_counts) (\<lambda>items.
     ebind (add_prefix_counts items sp) (merge_files rest)))"

text \<open>
  The pipeline of lines 130-138: the types are pushed onto the list \<open>semantic_types\<close>
  when there are any, and each type gets its prefix counts.
\<close>

definition counts_json :: "(string \<times> int) list \<Rightarrow> json" where
  "counts_json d = JObj (map (\<lambda>pn. (fst pn, JNum (snd pn))) d)"

definition merge_commands :: "(string \<times> (string \<times> int) list) list \<Rightarrow> cmd list" where
  "merge_commands sp =
     (if length sp > 0 then [Lpush ''semantic_types'' (map (\<lambda>td. JStr (fst td)) sp)] else [])
     @ map (\<lambda>td. Set (fst td) (counts_json (snd td))) sp"

text \<open>
  Lines 94-138: what the merge reads from the store and the pipeline it builds. The
  \<open>filter\<close> of line 100 drops the key \<open>semantic_types\<close>.
\<close>

definition all_meta_data :: "db \<Rightarrow> error + (string \<times> json) list" where
  "all_meta_data d =
     ebind (adapter_keys d) (\<lambda>answer.
     ebind (first_of answer) (\<lambda>keys0.
     let meta_data_keys = filter (\<lambda>key. key \<noteq> ''semantic_types'') keys0 in
     ebind (mget d meta_data_keys) (\<lambda>meta_data.
     Inr (collect_meta_data meta_data_keys meta_data))))"

definition merge_pipeline :: "db \<Rightarrow> error + cmd list" where
  "merge_pipeline d =
     ebind (all_meta_data d) (\<lambda>amd.
     ebind (merge_files amd []) (\<lambda>sources_prefix.
     Inr (merge_commands sources_prefix)))"

text \<open>\<open>merge_semantic_meta_data\<close> (lines 91-144): the pipeline is executed unless this is a dry run.\<close>

definition merge_semantic_meta_data :: "connection_factory \<Rightarrow> bool \<Rightarrow> error option \<times> connection_factory" where
  "merge_semantic_meta_data cf dry_run =
     on_value (merge_pipeline (curie_to_bl_type_db cf)) cf (\<lambda>types_prefixes_pipeline.
     if dry_run then (None, cf)
     else on_value (execute_pipeline types_prefixes_pipeline (curie_to_bl_type_db cf)) cf (\<lambda>d.
            (None, cf\<lparr>curie_to_bl_type_db := d\<rparr>)))"

text \<open>Reading the statistics: the count of a prefix under a type, 0 when there is none.\<close>

definition count_of :: "(string \<times> (string \<times> int) list) list \<Rightarrow> string \<Rightarrow> string \<Rightarrow> int" where
  "count_of sp t p =
     (case map_of sp t of None \<Rightarrow> 0
      | Some d \<Rightarrow> (case map_of d p of None \<Rightarrow> 0 | Some n \<Rightarrow> n))"

text \<open>The count a per-file partial \<open>{"source_prefixes": {type: {prefix: count}}}\<close> holds.\<close>

fun json_count :: "json option \<Rightarrow> int" where
  "json_count (Some (JNum n)) = n"
| "json_count _ = 0"

fun json_field :: "json option \<Rightarrow> string \<Rightarrow> json option" where
  "json_field (Some (JObj kvs)) k = map_of kvs k"
| "json_field _ k = None"

definition partial_count :: "json \<Rightarrow> string \<Rightarrow> string \<Rightarrow> int" where
  "partial_count data t p = json_count (json_field (json_field (json_field (Some data) ''source_prefixes'') t) p)"

text \<open>
  A well-formed per-file partial, as \<open>json.dumps({"source_prefixes": source_prefixes})\<close>
  writes it: a dict of dicts of integers, with the keys of each dict distinct.
\<close>

fun is_num :: "json \<Rightarrow> bool" where
  "is_num (JNum n) = True"
| "is_num _ = False"

fun wf_counts :: "json \<Rightarrow> bool" where
  "wf_counts (JObj kvs) = (distinct (map fst kvs) \<and> list_all (\<lambda>kv. is_num (snd kv)) kvs)"
| "wf_counts _ = False"

fun wf_types :: "json \<Rightarrow> bool" where
  "wf_types (JObj kvs) = (distinct (map fst kvs) \<and> list_all (\<lambda>kv. wf_counts (snd kv)) kvs)"
| "wf_types _ = False"

fun wf_partial :: "json \<Rightarrow> bool" where
  "wf_partial (JObj kvs) = (case map_of kvs ''source_prefixes'' of None \<Rightarrow> False | Some ts \<Rightarrow> wf_types ts)"
| "wf_partial _ = False"

fun cmd_key :: "cmd \<Rightarrow> string" where
  "cmd_key (Set k v) = k"
| "cmd_key (Lpush k vs) = k"

text \<open>
  The sums the merge is compared with: \<open>lk\<close> reads a count, \<open>items_sum\<close> adds up what a
  list of (prefix, count) pairs holds for a prefix, \<open>types_sum\<close> what a list of (type,
  counts) pairs holds for a type and a prefix.
\<close>

definition lk :: "(string \<times> int) list \<Rightarrow> string \<Rightarrow> int" where
  "lk d p = (case map_of d p of None \<Rightarrow> 0 | Some n \<Rightarrow> n)"

definition items_sum :: "(string \<times> json) list \<Rightarrow> string \<Rightarrow> int" where
  "items_sum items p = sum_list (map (\<lambda>kv. if fst kv = p then json_count (Some (snd kv)) else 0) items)"

fun counts_of_json :: "json \<Rightarrow> (string \<times> json) list" where
  "counts_of_json (JObj kvs) = kvs"
| "counts_of_json _ = []"

definition types_sum :: "(string \<times> json) list \<Rightarrow> string \<Rightarrow> string \<Rightarrow> int" where
  "types_sum items t p =
     sum_list (map (\<lambda>kv. if fst kv = t then items_sum (counts_of_json (snd kv)) p else 0) items)"

section \<open>The driver: \<open>load\<close> of \<open>load_compendium.py\<close>\<close>

text \<open>
  The pre-check loop (lines 52-55): the first file that does not validate ends \<open>load\<close>
  with \<open>False\<close>. \<open>validate_compendium\<close> is imported from \<open>util\<close>, which does not define it in
  the sources; it is a parameter here. \<open>comp_file\<close> is the source's loop variable \<open>comp\<close>.
\<close>

fun all_valid :: "(string \<Rightarrow> bool) \<Rightarrow> string list \<Rightarrow> bool" where
  "all_valid validate_compendium [] = True"
| "all_valid validate_compendium (comp_file # comps) =
     (if \<not> validate_compendium comp_file then False else all_valid validate_compendium comps)"

text \<open>
  The name \<open>source_prefixes\<close> in \<open>load\<close> (line 72). It is bound neither in \<open>load\<close> nor at
  module level: the dict of that name is a local variable of \<open>load_compendium\<close> (line 156).
  Evaluating the name raises \<open>NameError\<close>.
\<close>

definition source_prefixes_in_load :: "error + json" where
  "source_prefixes_in_load = Inl NameError"

text \<open>
  The body of the loop over the files (lines 68-80): ingest the file, then write the
  per-file statistics under the key \<open>file-\<close> followed by the file name. The arguments of
  \<open>set\<close> are evaluated before anything is staged.
\<close>

definition load_file :: "filesystem \<Rightarrow> toolkit \<Rightarrow> int \<Rightarrow> bool \<Rightarrow> string \<Rightarrow> connection_factory \<Rightarrow> error option \<times> connection_factory" where
  "load_file fs tk block_size dry_run comp_file cf =
     (case load_compendium fs comp_file block_size cf tk dry_run of
        (loaded, cf1) \<Rightarrow>
          on_value source_prefixes_in_load cf1 (\<lambda>sp.
          let semantic_types_redis_pipeline = [Set (''file-'' @ comp_file) (JObj [(''source_prefixes'', sp)])]
          in if dry_run then (None, cf1)
             else on_value (execute_pipeline semantic_types_redis_pipeline (curie_to_bl_type_db cf1)) cf1
                    (\<lambda>d. (None, cf1\<lparr>curie_to_bl_type_db := d\<rparr>))))"

fun for_files :: "filesystem \<Rightarrow> toolkit \<Rightarrow> int \<Rightarrow> bool \<Rightarrow> string list \<Rightarrow> connection_factory \<Rightarrow> error option \<times> connection_factory" where
  "for_files fs tk block_size dry_run [] cf = (None, cf)"
| "for_files fs tk block_size dry_run (comp_file # comps) cf =
     and_then (load_file fs tk block_size dry_run comp_file cf) (for_files fs tk block_size dry_run comps)"

text \<open>
  \<open>load\<close> (lines 20-88). The connection factory stands for the store it connects to. An
  exception of the \<open>try\<close> block is logged and raised again (lines 83-85).
\<close>

definition load :: "filesystem \<Rightarrow> (string \<Rightarrow> bool) \<Rightarrow> toolkit \<Rightarrow> connection_factory \<Rightarrow> string list \<Rightarrow> int \<Rightarrow> bool \<Rightarrow> (error + bool) \<times> connection_factory" where
  "load fs validate_compendium tk cf compendium_file block_size dry_run =
     (if \<not> all_valid validate_compendium compendium_file then (Inr False, cf)
      else case and_then (for_files fs tk block_size dry_run compendium_file cf)
                  (\<lambda>cf1. merge_semantic_meta_data cf1 dry_run) of
             (Some e, cf2) \<Rightarrow> (Inl e, cf2)
           | (None, cf2) \<Rightarrow> (Inr True, cf2))"

section \<open>The loader of \<open>loader.py\<close>: the structural pre-check\<close>

text \<open>
  Whether a line passes the check of lines 249-253: it parses, and \<open>jsonschema.validate\<close>
  accepts the instance. The schema file \<open>resources/valid_data_format.json\<close> is not among
  the sources; \<open>schema_ok\<close> says which instances the schema accepts.
\<close>

definition record_passes :: "(json \<Rightarrow> bool) \<Rightarrow> line \<Rightarrow> bool" where
  "record_passes schema_ok l =
     (case json_loads l of Inl e \<Rightarrow> False | Inr instance \<Rightarrow> schema_ok instance)"

text \<open>
  The loop of \<open>validate_compendia\<close> (lines 248-257) over the sampled lines: the first line
  that raises, in \<open>json.loads\<close> or in the validation, makes the result \<open>False\<close>.
\<close>

fun validate_lines :: "(json \<Rightarrow> bool) \<Rightarrow> line list \<Rightarrow> bool" where
  "validate_lines schema_ok [] = True"
| "validate_lines schema_ok (l # ls) =
     (case json_loads l of
        Inl e \<Rightarrow> False
      | Inr instance \<Rightarrow> if schema_ok instance then validate_lines schema_ok ls else False)"

text \<open>
  \<open>validate_compendia\<close> (lines 242-259): \<open>islice(compendium, 5)\<close> samples the first five
  lines. Opening the file is outside the \<open>try\<close>, so a file that cannot be opened raises.
\<close>

definition validate_compendia :: "filesystem \<Rightarrow> (json \<Rightarrow> bool) \<Rightarrow> string \<Rightarrow> error + bool" where
  "validate_compendia fs schema_ok in_file =
     ebind (open_file fs in_file) (\<lambda>compendium. Inr (validate_lines schema_ok (take 5 compendium)))"

text \<open>
  The loop of \<open>NodeLoader.load\<close> over the files (lines 188-198): a file is handed to
  \<open>self.load_compendium\<close> only when \<open>validate_compendia\<close> accepts it. What ingesting a file
  does to the loader and the store is the parameter \<open>load_one\<close>, which returns whether the
  file loaded and the state it leaves; the loop goes on to the next file either way.
\<close>

fun node_loader_load_files :: "filesystem \<Rightarrow> (json \<Rightarrow> bool) \<Rightarrow> (string \<Rightarrow> 's \<Rightarrow> bool \<times> 's) \<Rightarrow> string list \<Rightarrow> 's \<Rightarrow> error option \<times> 's" where
  "node_loader_load_files fs schema_ok load_one [] s = (None, s)"
| "node_loader_load_files fs schema_ok load_one (comp_file # comps) s =
     (case validate_compendia fs schema_ok comp_file of
        Inl e \<Rightarrow> (Some e, s)
      | Inr valid \<Rightarrow>
          if valid
          then node_loader_load_files fs schema_ok load_one comps (snd (load_one comp_file s))
          else node_loader_load_files fs schema_ok load_one comps s)"

section \<open>The loader of \<open>loader.py\<close>: what \<open>load_compendium\<close> stages\<close>

text \<open>
  The state of the loader while it reads a file: the set \<open>self.semantic_types\<close>, the dict
  \<open>self.source_prefixes\<close> and the two pipelines (fields \<open>nl_\<close>, for \<open>NodeLoader\<close>). The
  records of this loader are \<open>{"id": {"identifier": ...}, "type": [...],
  "equivalent_identifiers": [{"identifier": ..., "label": ...}, ...]}\<close>.
\<close>

record nl_state =
  nl_semantic_types :: "json list"
  nl_source_prefixes :: "(json \<times> (string \<times> int) list) list"
  nl_term2id_pipeline :: "cmd list"
  nl_id2instance_pipeline :: "cmd list"

text \<open>
  The body of the loop over the equivalent identifiers (lines 329-344): count the prefix,
  then stage two term-to-canonical writes, one under the identifier as it is written and
  one under its upper-cased form.
\<close>

definition nl_stage_equivalent_id :: "json \<Rightarrow> json \<Rightarrow> json \<Rightarrow> nl_state \<Rightarrow> error option \<times> nl_state" where
  "nl_stage_equivalent_id identifier semantic_type equivalent_id st =
     on_value (ebind (getitem equivalent_id ''identifier'') split_colon_first) st (\<lambda>source_prefix.
     on_value (bump_prefix semantic_type source_prefix (nl_source_prefixes st)) st (\<lambda>sp.
     let st1 = st\<lparr>nl_source_prefixes := sp\<rparr> in
     on_value (ebind (getitem equivalent_id ''identifier'') redis_key) st1 (\<lambda>key.
     let st2 = st1\<lparr>nl_term2id_pipeline := nl_term2id_pipeline st1 @ [Set key identifier]\<rparr> in
     on_value (ebind (getitem equivalent_id ''identifier'') str_upper) st2 (\<lambda>upper_key.
     (None, st2\<lparr>nl_term2id_pipeline := nl_term2id_pipeline st2 @ [Set upper_key identifier]\<rparr>)))))"

fun nl_for_equivalent_ids :: "json \<Rightarrow> json \<Rightarrow> json list \<Rightarrow> nl_state \<Rightarrow> error option \<times> nl_state" where
  "nl_for_equivalent_ids identifier semantic_type [] st = (None, st)"
| "nl_for_equivalent_ids identifier semantic_type (e # es) st =
     and_then (nl_stage_equivalent_id identifier semantic_type e st)
       (nl_for_equivalent_ids identifier semantic_type es)"

text \<open>
  The body of the loop over the semantic types (lines 319-346): here \<open>semantic_types\<close> is a
  set, and \<open>add\<close> puts the type into it.
\<close>

definition nl_stage_semantic_type :: "line \<Rightarrow> json \<Rightarrow> json \<Rightarrow> json \<Rightarrow> nl_state \<Rightarrow> error option \<times> nl_state" where
  "nl_stage_semantic_type l instance identifier semantic_type st =
     (if \<not> hashable semantic_type then (Some TypeError, st)
      else
        let st0 = st\<lparr>nl_semantic_types := List.insert semantic_type (nl_semantic_types st)\<rparr>;
            st1 = (if map_of (nl_source_prefixes st0) semantic_type = None
                   then st0\<lparr>nl_source_prefixes := AList.update semantic_type [] (nl_source_prefixes st0)\<rparr>
                   else st0) in
        on_value (ebind (getitem instance ''equivalent_identifiers'') iterate) st1 (\<lambda>ids.
        and_then (nl_for_equivalent_ids identifier semantic_type ids st1) (\<lambda>st2.
        on_value (redis_key identifier) st2 (\<lambda>key.
        (None, st2\<lparr>nl_id2instance_pipeline := nl_id2instance_pipeline st2 @ [Set key (JStr (raw l))]\<rparr>)))))"

fun nl_for_semantic_types :: "line \<Rightarrow> json \<Rightarrow> json \<Rightarrow> json list \<Rightarrow> nl_state \<Rightarrow> error option \<times> nl_state" where
  "nl_for_semantic_types l instance identifier [] st = (None, st)"
| "nl_for_semantic_types l instance identifier (t # ts) st =
     and_then (nl_stage_semantic_type l instance identifier t st)
       (nl_for_semantic_types l instance identifier ts)"

text \<open>
  What one line stages (lines 312-346). The flushes of lines 348-356 call
  \<open>execute_pipeline\<close> without awaiting it; what they write depends on \<open>redis_adapter\<close>, which
  is not among the sources, and they are left out.
\<close>

definition nl_process_line :: "line \<Rightarrow> nl_state \<Rightarrow> error option \<times> nl_state" where
  "nl_process_line l st =
     on_value (json_loads l) st (\<lambda>instance.
     on_value (ebind (getitem instance ''id'') (\<lambda>i. getitem i ''identifier'')) st (\<lambda>identifier.
     on_value (ebind (getitem instance ''type'') iterate) st (\<lambda>types.
     nl_for_semantic_types l instance identifier types st)))"

section \<open>Resolution\<close>

text \<open>
  The three connections the server reads (\<open>app.state.redis_connection0\<close>, \<open>1\<close>, \<open>2\<close>); in
  the tests they hold identifier to canonical identifier, canonical identifier to
  equivalent identifiers, and canonical identifier to type.
\<close>

record app_state =
  redis_connection0 :: db
  redis_connection1 :: db
  redis_connection2 :: db

text \<open>A resolved node: \<open>{id: {identifier, label}, equivalent_identifiers, type}\<close>.\<close>

record member =
  m_identifier :: string
  m_label :: "string option"

record resolved_node =
  node_id :: member
  equivalent_identifiers :: "member list"
  node_type :: "string list"

text \<open>Stored values read back: a str, and a list of \<open>{"i": curie, "l": label}\<close>.\<close>

fun as_str :: "json option \<Rightarrow> string option" where
  "as_str (Some (JStr s)) = Some s"
| "as_str _ = None"

fun as_member :: "json \<Rightarrow> member" where
  "as_member (JObj kvs) =
     \<lparr>m_identifier = (case as_str (map_of kvs ''i'') of Some s \<Rightarrow> s | None \<Rightarrow> []),
      m_label = as_str (map_of kvs ''l'')\<rparr>"
| "as_member _ = \<lparr>m_identifier = [], m_label = None\<rparr>"

fun as_members :: "json option \<Rightarrow> member list" where
  "as_members (Some (JArr xs)) = map as_member xs"
| "as_members _ = []"

fun somes :: "'a option list \<Rightarrow> 'a list" where
  "somes [] = []"
| "somes (None # xs) = somes xs"
| "somes (Some x # xs) = x # somes xs"

text \<open>
  Modelled from the spec: \<open>normalizer.get_normalized_nodes\<close> is not among the sources.
  Section 4.6, step (3): a node is assembled from the canonical identifier, its
  equivalent identifiers and its leaf type. The label of the node is the label of the
  first equivalent identifier, which section 3 makes the canonical one.
\<close>

definition assemble_node :: "string \<Rightarrow> json option \<Rightarrow> json option \<Rightarrow> resolved_node" where
  "assemble_node canonical eqs ty =
     \<lparr>node_id = \<lparr>m_identifier = canonical,
                 m_label = (case as_members eqs of [] \<Rightarrow> None | m # ms \<Rightarrow> m_label m)\<rparr>,
      equivalent_identifiers = as_members eqs,
      node_type = (case as_str ty of None \<Rightarrow> [] | Some t \<Rightarrow> [t])\<rparr>"

text \<open>
  Modelled from the spec: one output slot per input position; the answers of the two
  batch lookups of step (2) are consumed in order, one per resolved position.
\<close>

fun assemble :: "string option list \<Rightarrow> json option list \<Rightarrow> json option list \<Rightarrow> resolved_node option list" where
  "assemble [] es ts = []"
| "assemble (None # cs) es ts = None # assemble cs es ts"
| "assemble (Some c # cs) (e # es) (t # ts) = Some (assemble_node c e t) # assemble cs es ts"
| "assemble (Some c # cs) es ts = Some (assemble_node c None None) # assemble cs [] []"

text \<open>
  Modelled from the spec: \<open>normalizer.get_normalized_nodes\<close> is not among the sources.
  Section 4.6: (1) uppercase every input identifier and batch-lookup term-to-canonical;
  (2) for the resolved canonical identifiers, batch-lookup canonical-to-equivalents and
  canonical-to-type; (3) assemble one optional node per input identifier.
\<close>

definition get_normalized_nodes :: "app_state \<Rightarrow> string list \<Rightarrow> error + resolved_node option list" where
  "get_normalized_nodes app curies =
     ebind (mget (redis_connection0 app) (map upper curies)) (\<lambda>answers.
     let canonical = map as_str answers; resolved = somes canonical in
     ebind (mget (redis_connection1 app) resolved) (\<lambda>eqs.
     ebind (mget (redis_connection2 app) resolved) (\<lambda>types.
     Inr (assemble canonical eqs types))))"

text \<open>
  A Python dict built from keys and values in step, as \<open>dict(zip(keys, values))\<close> builds
  it: a key is held once, a repeated key keeps its place and takes the later value.
\<close>

fun keyed_by_identifier :: "string list \<Rightarrow> 'a list \<Rightarrow> (string \<times> 'a) list \<Rightarrow> (string \<times> 'a) list" where
  "keyed_by_identifier (k # ks) (v # vs) d = keyed_by_identifier ks vs (AList.update k v d)"
| "keyed_by_identifier ks vs d = d"

text \<open>
  Modelled from the spec: \<open>normalizer.get_normalized_nodes\<close> is not among the sources.
  The tests read what the server answers as a JSON object keyed by the input identifier
  (\<open>test_norm.py\<close>, lines 39-44, 52-55 and 73: \<open>result == {"UNKNOWN:000000": None}\<close>,
  \<open>result["DOID:3812"]\<close>); the object holds, under each input identifier, the slot that
  section 4.6 gives the identifier.
\<close>

definition normalized_nodes_response :: "app_state \<Rightarrow> string list \<Rightarrow> error + (string \<times> resolved_node option) list" where
  "normalized_nodes_response app curies =
     ebind (get_normalized_nodes app curies) (\<lambda>nodes. Inr (keyed_by_identifier curies nodes []))"

text \<open>
  \<open>get_normalized_node_handler\<close> (\<open>server.py\<close>, lines 83-94): the POST handler passes the
  list of curies on and returns the answer as it gets it.
\<close>

definition get_normalized_node_handler :: "app_state \<Rightarrow> string list \<Rightarrow> error + (string \<times> resolved_node option) list" where
  "get_normalized_node_handler app curies = normalized_nodes_response app curies"

text \<open>What one input identifier resolves to, looked up on its own.\<close>

definition term_to_canonical :: "app_state \<Rightarrow> string \<Rightarrow> string option" where
  "term_to_canonical app curie = as_str (map_of (kv (redis_connection0 app)) (upper curie))"

definition resolve_one :: "app_state \<Rightarrow> string \<Rightarrow> resolved_node option" where
  "resolve_one app curie =
     (case term_to_canonical app curie of
        None \<Rightarrow> None
      | Some c \<Rightarrow> Some (assemble_node c (map_of (kv (redis_connection1 app)) c)
                                         (map_of (kv (redis_connection2 app)) c)))"

definition app_reachable :: "app_state \<Rightarrow> bool" where
  "app_reachable app =
     (reachable (redis_connection0 app) \<and> reachable (redis_connection1 app) \<and>
      reachable (redis_connection2 app))"

text \<open>The server reading the store that ingestion writes.\<close>

definition app_of_store :: "connection_factory \<Rightarrow> app_state" where
  "app_of_store cf =
     \<lparr>redis_connection0 = eq_id_to_id_db cf, redis_connection1 = id_to_eqids_db cf,
      redis_connection2 = id_to_type_db cf\<rparr>"

text \<open>The store of the tests (\<open>test_norm.py\<close>, lines 20-28).\<close>

definition test_app :: app_state where
  "test_app =
     \<lparr>redis_connection0 =
        \<lparr>reachable = True,
         kv = [(''DOID:3812'', JStr ''MONDO:0005002''), (''MONDO:0005002'', JStr ''MONDO:0005002'')],
         lists = []\<rparr>,
      redis_connection1 =
        \<lparr>reachable = True,
         kv = [(''MONDO:0005002'', JArr [JObj [(''i'', JStr ''MONDO:0005002'')],
                                          JObj [(''i'', JStr ''DOID:3812'')]])],
         lists = []\<rparr>,
      redis_connection2 =
        \<lparr>reachable = True, kv = [(''MONDO:0005002'', JStr ''biolink:Disease'')], lists = []\<rparr>\<rparr>"

definition mondo_node :: resolved_node where
  "mondo_node =
     \<lparr>node_id = \<lparr>m_identifier = ''MONDO:0005002'', m_label = None\<rparr>,
      equivalent_identifiers =
        [\<lparr>m_identifier = ''MONDO:0005002'', m_label = None\<rparr>,
         \<lparr>m_identifier = ''DOID:3812'', m_label = None\<rparr>],
      node_type = [''biolink:Disease'']\<rparr>"

section \<open>Example data and auxiliary predicates\<close>

definition all_reachable :: "connection_factory \<Rightarrow> bool" where
  "all_reachable cf =
     (reachable (eq_id_to_id_db cf) \<and> reachable (id_to_eqids_db cf) \<and>
      reachable (id_to_type_db cf) \<and> reachable (info_content_db cf))"

subsection \<open>Example data\<close>

text \<open>
  The record of the specification's end-to-end example, a toolkit that knows the chain
  \<open>biolink:Disease\<close>, \<open>biolink:NamedThing\<close>, and an empty store.
\<close>

definition disease_record :: json where
  "disease_record =
     JObj [(''type'', JStr ''biolink:Disease''),
           (''identifiers'', JArr [JObj [(''i'', JStr ''MONDO:0005002'')],
                                   JObj [(''i'', JStr ''DOID:3812'')]])]"

definition disease_line :: line where
  "disease_line = \<lparr>raw = ''disease_record'', parsed = Some disease_record\<rparr>"

definition broken_line :: line where
  "broken_line = \<lparr>raw = ''{'', parsed = None\<rparr>"

definition biolink_toolkit :: toolkit where
  "biolink_toolkit =
     \<lparr>tk_get_ancestors =
        (\<lambda>t. if t = JStr ''biolink:Disease'' then Inr [''disease'', ''named thing''] else Inr []),
      tk_class_uri =
        (\<lambda>n. if n = ''disease'' then Inr (JStr ''biolink:Disease'')
             else if n = ''named thing'' then Inr (JStr ''biolink:NamedThing'')
             else Inl TypeError)\<rparr>"

definition failing_toolkit :: toolkit where
  "failing_toolkit =
     \<lparr>tk_get_ancestors = (\<lambda>t. Inl ToolkitError), tk_class_uri = (\<lambda>n. Inl ToolkitError)\<rparr>"

definition empty_db :: db where
  "empty_db = \<lparr>reachable = True, kv = [], lists = []\<rparr>"

definition empty_store :: connection_factory where
  "empty_store =
     \<lparr>eq_id_to_id_db = empty_db, id_to_eqids_db = empty_db, id_to_type_db = empty_db,
      info_content_db = empty_db, curie_to_bl_type_db = empty_db\<rparr>"

definition unreachable_store :: connection_factory where
  "unreachable_store = empty_store\<lparr>id_to_type_db := empty_db\<lparr>reachable := False\<rparr>\<rparr>"

text \<open>Two per-file partials that count the prefix \<open>X\<close> under the type \<open>T\<close>: 3 and 5.\<close>

definition partial_a :: json where
  "partial_a = JObj [(''source_prefixes'', JObj [(''T'', JObj [(''X'', JNum 3)])])]"

definition partial_b :: json where
  "partial_b = JObj [(''source_prefixes'', JObj [(''T'', JObj [(''X'', JNum 5), (''Y'', JNum 1)])])]"

text \<open>The keys whose values the merge reads: the per-file keys of the database.\<close>

definition file_partial_keys :: "db \<Rightarrow> string list" where
  "file_partial_keys d =
     filter (\<lambda>key. key \<noteq> ''semantic_types'') (filter is_file_key (remdups (map fst (kv d))))"

text \<open>The string writes of a pipeline, in order.\<close>

fun sets_of :: "cmd list \<Rightarrow> (string \<times> json) list" where
  "sets_of [] = []"
| "sets_of (Set k v # cs) = (k, v) # sets_of cs"
| "sets_of (Lpush k vs # cs) = sets_of cs"

text \<open>The string values of a database after a list of writes.\<close>

definition apply_sets :: "(string \<times> json) list \<Rightarrow> (string \<times> json) list \<Rightarrow> (string \<times> json) list" where
  "apply_sets kvs al = fold (\<lambda>kv. AList.update (fst kv) (snd kv)) kvs al"

text \<open>
  A statistics database that holds the two per-file partials, and the pipeline the merge
  builds from it.
\<close>

definition stats_db :: db where
  "stats_db = \<lparr>reachable = True, kv = [(''file-a'', partial_a), (''file-b'', partial_b)], lists = []\<rparr>"

definition stats_store :: connection_factory where
  "stats_store = empty_store\<lparr>curie_to_bl_type_db := stats_db\<rparr>"

definition stats_pipeline :: "cmd list" where
  "stats_pipeline =
     [Lpush ''semantic_types'' [JStr ''T''],
      Set ''T'' (JObj [(''X'', JNum 8), (''Y'', JNum 1)])]"

text \<open>
  Two files for the pre-check: one whose first five lines are records and whose sixth
  line is not JSON, one whose second line is not JSON; a schema that asks for the two
  required fields; and a stand-in for ingestion that records the names of the files it
  is given.
\<close>

definition example_fs :: filesystem where
  "example_fs n =
     (if n = ''Good.txt''
      then Some [disease_line, disease_line, disease_line, disease_line, disease_line, broken_line]
      else if n = ''Bad.txt'' then Some [disease_line, broken_line]
      else None)"

definition example_schema :: "json \<Rightarrow> bool" where
  "example_schema j = (contains_key j ''type'' \<and> contains_key j ''identifiers'')"

definition record_file :: "string \<Rightarrow> string list \<Rightarrow> bool \<times> string list" where
  "record_file n s = (True, s @ [n])"

text \<open>
  Records built from their parts: the type, the optional information content and the
  members (identifier and optional label) for \<open>load_compendium.py\<close>; the identifier object,
  the types and the members for \<open>loader.py\<close>.
\<close>

fun member_json :: "string \<times> string option \<Rightarrow> json" where
  "member_json (i, None) = JObj [(''i'', JStr i)]"
| "member_json (i, Some l) = JObj [(''i'', JStr i), (''l'', JStr l)]"

definition record_json :: "string \<Rightarrow> json option \<Rightarrow> (string \<times> string option) list \<Rightarrow> json" where
  "record_json ty ic members =
     JObj ((''type'', JStr ty) # (''identifiers'', JArr (map member_json members))
           # (case ic of None \<Rightarrow> [] | Some v \<Rightarrow> [(''ic'', v)]))"

fun nl_member_json :: "string \<times> string option \<Rightarrow> json" where
  "nl_member_json (i, None) = JObj [(''identifier'', JStr i)]"
| "nl_member_json (i, Some l) = JObj [(''identifier'', JStr i), (''label'', JStr l)]"

definition nl_record_json :: "json \<Rightarrow> json \<Rightarrow> (string \<times> string option) list \<Rightarrow> json" where
  "nl_record_json idj types members =
     JObj [(''id'', idj), (''type'', types),
           (''equivalent_identifiers'', JArr (map nl_member_json members))]"

text \<open>The example record with its second identifier in lower case.\<close>

definition lower_record :: json where
  "lower_record = record_json ''biolink:Disease'' None [(''MONDO:0005002'', None), (''doid:3812'', None)]"

definition lower_line :: line where
  "lower_line = \<lparr>raw = ''lower_record'', parsed = Some lower_record\<rparr>"

text \<open>
  A statistics database whose one per-file partial counts a prefix under a type that is
  named like a per-file key.
\<close>

definition clash_db :: db where
  "clash_db =
     \<lparr>reachable = True,
      kv = [(''file-a'', JObj [(''source_prefixes'', JObj [(''file-x'', JObj [(''A'', JNum 1)])])])],
      lists = []\<rparr>"

definition clash_store :: connection_factory where
  "clash_store = empty_store\<lparr>curie_to_bl_type_db := clash_db\<rparr>"

section \<open>Properties of ingestion\<close>

lemma for_semantic_types_raises:
  "ts \<noteq> [] \<Longrightarrow> for_semantic_types instance identifier semantic_types ts st = (Some AttributeError, st)"
  by (cases ts) (simp_all add: list_add_def on_value_def)

lemma ebind_Inr_iff: "ebind m f = Inr y \<longleftrightarrow> (\<exists>x. m = Inr x \<and> f x = Inr y)"
  by (cases m) (simp_all add: ebind_def)

text \<open>A fresh ancestor map gives a chain that holds at least the type itself.\<close>

lemma get_ancestors_nonempty:
  "get_ancestors tk [] ty = Inr (ancs, amap) \<Longrightarrow> ancs \<noteq> []"
  by (auto simp: get_ancestors_def ebind_Inr_iff Let_def split: if_splits)

text \<open>
  The first line of a file never gets through: it fails to parse, lacks a field, the
  toolkit fails, or the loop over its semantic types raises at line 208. Nothing has
  been written to the store by then.
\<close>

lemma process_line_raises:
  assumes "ancestor_map st = []"
  shows "\<exists>e st'. process_line tk block_size dry_run l st = (Some e, st') \<and> conns st' = conns st"
proof (cases "json_loads l")
  case (Inl e)
  then show ?thesis by (simp add: process_line_def on_value_def)
next
  case inst: (Inr ins)
  show ?thesis
  proof (cases "ebind (ebind (getitem ins ''identifiers'') getitem0) (\<lambda>first. getitem first ''i'')")
    case (Inl e)
    with inst show ?thesis by (simp add: process_line_def on_value_def)
  next
    case ident: (Inr idf)
    show ?thesis
    proof (cases "getitem ins ''type''")
      case (Inl e)
      with inst ident show ?thesis by (simp add: process_line_def on_value_def)
    next
      case ty: (Inr ty)
      show ?thesis
      proof (cases "get_ancestors tk [] ty")
        case (Inl e)
        with inst ident ty assms show ?thesis by (simp add: process_line_def on_value_def)
      next
        case (Inr r)
        obtain ancs amap where r: "r = (ancs, amap)" by (cases r)
        with Inr have "ancs \<noteq> []" using get_ancestors_nonempty by blast
        with inst ident ty assms Inr r show ?thesis
          by (simp add: process_line_def on_value_def and_then_def for_semantic_types_raises)
      qed
    qed
  qed
qed

lemma for_lines_raises:
  assumes "ancestor_map st = []" and "ls \<noteq> []"
  shows "\<exists>e st'. for_lines tk block_size dry_run ls st = (Some e, st') \<and> conns st' = conns st"
proof -
  from assms(2) obtain l ls' where "ls = l # ls'" by (cases ls) auto
  moreover from process_line_raises [OF assms(1)]
  obtain e st' where "process_line tk block_size dry_run l st = (Some e, st')" "conns st' = conns st"
    by blast
  ultimately show ?thesis by (simp add: and_then_def)
qed

lemma execute_pipeline_empty:
  "execute_pipeline [] d = (if reachable d then Inr d else Inl ConnectionError)"
  by (simp add: execute_pipeline_def)

lemma execute_all_initial:
  "execute_all (initial_lstate cf) =
     (if all_reachable cf then None else Some ConnectionError, initial_lstate cf)"
  by (simp add: execute_all_def initial_lstate_def execute_pipeline_empty on_value_def all_reachable_def)

lemma load_compendium_try_empty:
  "fs name = Some [] \<Longrightarrow>
   load_compendium_try fs name block_size cf tk dry_run =
     (if dry_run \<or> all_reachable cf then None else Some ConnectionError, initial_lstate cf)"
  by (simp add: load_compendium_try_def open_file_def on_value_def and_then_def
      execute_all_initial Let_def)

lemma load_compendium_try_lines:
  assumes "fs name = Some ls" and "ls \<noteq> []"
  shows "\<exists>e st'. load_compendium_try fs name block_size cf tk dry_run = (Some e, st') \<and> conns st' = cf"
proof -
  have "ancestor_map (initial_lstate cf) = []" by (simp add: initial_lstate_def)
  from for_lines_raises [OF this assms(2), of tk block_size dry_run]
  obtain e st' where "for_lines tk block_size dry_run ls (initial_lstate cf) = (Some e, st')"
    and "conns st' = cf" by (auto simp: initial_lstate_def)
  with assms(1) show ?thesis
    by (simp add: load_compendium_try_def open_file_def on_value_def and_then_def)
qed

text \<open>
  What a call of \<open>load_compendium\<close> returns, for every input: \<open>True\<close> only for a file
  without lines, and the store as it was given.
\<close>

lemma load_compendium_result:
  "load_compendium fs name block_size cf tk dry_run =
     (fs name = Some [] \<and> (dry_run \<or> all_reachable cf), cf)"
proof (cases "fs name")
  case None
  then show ?thesis
    by (simp add: load_compendium_def load_compendium_try_def open_file_def on_value_def initial_lstate_def)
next
  case (Some ls)
  show ?thesis
  proof (cases ls)
    case Nil
    with Some show ?thesis
      by (simp add: load_compendium_def load_compendium_try_empty) (simp add: initial_lstate_def)
  next
    case (Cons l ls')
    with Some load_compendium_try_lines [of fs name ls block_size cf tk dry_run]
    show ?thesis by (auto simp: load_compendium_def)
  qed
qed

text \<open>
  C10. \<open>load_compendium\<close> returns a boolean for every file, block size, store and toolkit:
  it returns \<open>False\<close> when the file cannot be opened, when a line of the file is not JSON,
  when the toolkit fails on the type of a line, when the store fails, and whenever the
  \<open>try\<close> block raises anything else; it returns \<open>True\<close> when the \<open>try\<close> block raises nothing.
\<close>

theorem load_compendium_catches_every_exception:
  "(open_file fs name = Inl e1 \<longrightarrow> \<not> fst (load_compendium fs name block_size cf tk dry_run))
   \<and> (open_file fs name = Inr ls \<and> l \<in> set ls \<and> json_loads l = Inl e2
        \<longrightarrow> \<not> fst (load_compendium fs name block_size cf tk dry_run))
   \<and> (open_file fs name = Inr ls \<and> l \<in> set ls \<and> json_loads l = Inr instance
        \<and> getitem instance ''type'' = Inr ty \<and> tk_get_ancestors tk ty = Inl e3
        \<longrightarrow> \<not> fst (load_compendium fs name block_size cf tk dry_run))
   \<and> (\<not> dry_run \<and> \<not> all_reachable cf \<longrightarrow> \<not> fst (load_compendium fs name block_size cf tk dry_run))
   \<and> (fst (load_compendium_try fs name block_size cf tk dry_run) = Some e4
        \<longrightarrow> \<not> fst (load_compendium fs name block_size cf tk dry_run))
   \<and> (fst (load_compendium_try fs name block_size cf tk dry_run) = None
        \<longrightarrow> fst (load_compendium fs name block_size cf tk dry_run))"
proof -
  have opened: "\<not> fst (load_compendium fs name block_size cf tk dry_run)"
    if "open_file fs name = Inr ls" and "l \<in> set ls" for ls l
  proof -
    from that have "fs name = Some ls" "ls \<noteq> []"
      by (auto simp: open_file_def split: option.splits)
    then show ?thesis by (simp add: load_compendium_result)
  qed
  have closed: "\<not> fst (load_compendium fs name block_size cf tk dry_run)"
    if "open_file fs name = Inl e" for e
    using that by (simp add: load_compendium_result open_file_def split: option.splits)
  have store: "\<not> fst (load_compendium fs name block_size cf tk dry_run)"
    if "\<not> dry_run" and "\<not> all_reachable cf"
    using that by (simp add: load_compendium_result)
  have raised: "\<not> fst (load_compendium fs name block_size cf tk dry_run)"
    if "fst (load_compendium_try fs name block_size cf tk dry_run) = Some e" for e
    using that by (cases "load_compendium_try fs name block_size cf tk dry_run")
      (simp add: load_compendium_def)
  have passed: "fst (load_compendium fs name block_size cf tk dry_run)"
    if "fst (load_compendium_try fs name block_size cf tk dry_run) = None"
    using that by (cases "load_compendium_try fs name block_size cf tk dry_run")
      (simp add: load_compendium_def)
  from opened closed store raised passed show ?thesis by blast
qed

theorem load_compendium_catches_every_exception_witness:
  "\<not> fst (load_compendium (\<lambda>n. None) ''Disease.txt'' 1000 empty_store biolink_toolkit False)
   \<and> \<not> fst (load_compendium (\<lambda>n. Some [disease_line, broken_line]) ''Disease.txt'' 1000
              empty_store biolink_toolkit False)
   \<and> \<not> fst (load_compendium (\<lambda>n. Some [disease_line]) ''Disease.txt'' 1000
              empty_store failing_toolkit False)
   \<and> \<not> fst (load_compendium (\<lambda>n. Some []) ''Disease.txt'' 1000 unreachable_store biolink_toolkit False)
   \<and> fst (load_compendium (\<lambda>n. Some []) ''Disease.txt'' 1000 empty_store biolink_toolkit False)"
proof -
  have h1: "open_file (\<lambda>n. None) ''Disease.txt'' = Inl OSError"
    by (simp add: open_file_def)
  have h2: "open_file (\<lambda>n. Some [disease_line, broken_line]) ''Disease.txt'' = Inr [disease_line, broken_line]
      \<and> broken_line \<in> set [disease_line, broken_line] \<and> json_loads broken_line = Inl JSONDecodeError"
    by (simp add: open_file_def json_loads_def broken_line_def)
  have h3: "open_file (\<lambda>n. Some [disease_line]) ''Disease.txt'' = Inr [disease_line]
      \<and> disease_line \<in> set [disease_line] \<and> json_loads disease_line = Inr disease_record
      \<and> getitem disease_record ''type'' = Inr (JStr ''biolink:Disease'')
      \<and> tk_get_ancestors failing_toolkit (JStr ''biolink:Disease'') = Inl ToolkitError"
    by (simp add: open_file_def json_loads_def disease_line_def disease_record_def failing_toolkit_def)
  have h4: "\<not> False \<and> \<not> all_reachable unreachable_store"
    by (simp add: all_reachable_def unreachable_store_def empty_store_def empty_db_def)
  have h5: "fst (load_compendium_try (\<lambda>n. Some []) ''Disease.txt'' 1000 empty_store biolink_toolkit False) = None"
    by (simp add: load_compendium_try_empty all_reachable_def empty_store_def empty_db_def)
  from h1 load_compendium_catches_every_exception
         [of "\<lambda>n. None" "''Disease.txt''" OSError 1000 empty_store biolink_toolkit False]
  have c1: "\<not> fst (load_compendium (\<lambda>n. None) ''Disease.txt'' 1000 empty_store biolink_toolkit False)"
    by blast
  from h2 load_compendium_catches_every_exception
         [of "\<lambda>n. Some [disease_line, broken_line]" "''Disease.txt''" _ 1000 empty_store
             biolink_toolkit False "[disease_line, broken_line]" broken_line JSONDecodeError]
  have c2: "\<not> fst (load_compendium (\<lambda>n. Some [disease_line, broken_line]) ''Disease.txt'' 1000
              empty_store biolink_toolkit False)"
    by blast
  from h3 load_compendium_catches_every_exception
         [of "\<lambda>n. Some [disease_line]" "''Disease.txt''" _ 1000 empty_store
             failing_toolkit False "[disease_line]" disease_line _ disease_record
             "JStr ''biolink:Disease''" ToolkitError]
  have c3: "\<not> fst (load_compendium (\<lambda>n. Some [disease_line]) ''Disease.txt'' 1000
              empty_store failing_toolkit False)"
    by blast
  from h4 load_compendium_catches_every_exception
         [of "\<lambda>n. Some []" "''Disease.txt''" _ 1000 unreachable_store biolink_toolkit False]
  have c4: "\<not> fst (load_compendium (\<lambda>n. Some []) ''Disease.txt'' 1000 unreachable_store biolink_toolkit False)"
    by blast
  from h5 load_compendium_catches_every_exception
         [of "\<lambda>n. Some []" "''Disease.txt''" _ 1000 empty_store biolink_toolkit False]
  have c5: "fst (load_compendium (\<lambda>n. Some []) ''Disease.txt'' 1000 empty_store biolink_toolkit False)"
    by blast
  from c1 c2 c3 c4 c5 show ?thesis by blast
qed

section \<open>Properties of resolution\<close>

lemma assemble_map:
  "length es = length (somes cs) \<Longrightarrow> length ts = length (somes cs) \<Longrightarrow>
   (\<forall>i < length es. es ! i = f (somes cs ! i)) \<Longrightarrow> (\<forall>i < length ts. ts ! i = g (somes cs ! i)) \<Longrightarrow>
   assemble cs es ts = map (\<lambda>c. case c of None \<Rightarrow> None | Some x \<Rightarrow> Some (assemble_node x (f x) (g x))) cs"
proof (induction cs es ts rule: assemble.induct)
  case (3 c cs e es t ts)
  have "assemble cs es ts = map (\<lambda>c. case c of None \<Rightarrow> None | Some x \<Rightarrow> Some (assemble_node x (f x) (g x))) cs"
  proof (rule "3.IH")
    show "length es = length (somes cs)" using "3.prems"(1) by simp
    show "length ts = length (somes cs)" using "3.prems"(2) by simp
    show "\<forall>i<length es. es ! i = f (somes cs ! i)" using "3.prems"(3) by fastforce
    show "\<forall>i<length ts. ts ! i = g (somes cs ! i)" using "3.prems"(4) by fastforce
  qed
  moreover have "e = f c" using "3.prems"(3) by fastforce
  moreover have "t = g c" using "3.prems"(4) by fastforce
  ultimately show ?case by simp
qed simp_all

lemma get_normalized_nodes_map:
  assumes "app_reachable app"
  shows "get_normalized_nodes app curies = Inr (map (resolve_one app) curies)"
proof -
  let ?cs = "map as_str (map (map_of (kv (redis_connection0 app))) (map upper curies))"
  have "assemble ?cs (map (map_of (kv (redis_connection1 app))) (somes ?cs))
          (map (map_of (kv (redis_connection2 app))) (somes ?cs))
        = map (\<lambda>c. case c of None \<Rightarrow> None | Some x \<Rightarrow>
            Some (assemble_node x (map_of (kv (redis_connection1 app)) x) (map_of (kv (redis_connection2 app)) x))) ?cs"
    by (rule assemble_map) simp_all
  also have "\<dots> = map (resolve_one app) curies"
    by (simp add: resolve_one_def term_to_canonical_def comp_def)
  finally show ?thesis using assms
    by (simp add: get_normalized_nodes_def mget_def app_reachable_def ebind_def Let_def)
qed

lemma get_normalized_nodes_error:
  "get_normalized_nodes app curies = Inl e \<Longrightarrow> \<not> app_reachable app"
  by (auto simp: get_normalized_nodes_map)

lemma keyed_by_identifier_map_of:
  "map_of (keyed_by_identifier ks (map f ks) d) k = (if k \<in> set ks then Some (f k) else map_of d k)"
  by (induction ks arbitrary: d) (simp_all add: update_conv')

lemma keyed_by_identifier_keys:
  "fst ` set (keyed_by_identifier ks (map f ks) d) = set ks \<union> fst ` set d"
  by (induction ks arbitrary: d) (auto simp: dom_update)

lemma keyed_by_identifier_distinct:
  "distinct (map fst d) \<Longrightarrow> distinct (map fst (keyed_by_identifier ks (map f ks) d))"
  by (induction ks arbitrary: d) (simp_all add: distinct_update)

lemma keyed_by_identifier_order:
  "distinct (map fst d @ ks) \<Longrightarrow> map fst (keyed_by_identifier ks (map f ks) d) = map fst d @ ks"
proof (induction ks arbitrary: d)
  case Nil
  then show ?case by simp
next
  case (Cons a ks)
  from Cons.prems have "a \<notin> set (map fst d)" by auto
  then have keys: "map fst (AList.update a (f a) d) = map fst d @ [a]"
    by (simp add: update_keys)
  with Cons.prems have "distinct (map fst (AList.update a (f a) d) @ ks)" by auto
  from Cons.IH [OF this] keys show ?case by simp
qed

lemma handler_response:
  "app_reachable app \<Longrightarrow>
   get_normalized_node_handler app curies =
     Inr (keyed_by_identifier curies (map (resolve_one app) curies) [])"
  by (simp add: get_normalized_node_handler_def normalized_nodes_response_def
      get_normalized_nodes_map ebind_def)

lemma resolve_one_doid: "resolve_one test_app ''DOID:3812'' = Some mondo_node"
  by (simp add: resolve_one_def term_to_canonical_def test_app_def upper_def upper_char_def
      assemble_node_def mondo_node_def)

lemma resolve_one_unknown: "resolve_one test_app ''UNKNOWN:000000'' = None"
  by (simp add: resolve_one_def term_to_canonical_def test_app_def upper_def upper_char_def)

text \<open>
  C1, as the code has it. When the store answers, the response is an object keyed by the
  input identifiers: it holds every input identifier once, however often the identifier
  occurs in the input, and holds nothing else; under each identifier it holds what the
  identifier resolves to on its own, null when the identifier has no canonical
  identifier. It has as many entries as the input has different identifiers; when the
  input identifiers are all different, the entries are in the order of the input and as
  many as the input.
\<close>

theorem response_one_entry_per_identifier:
  assumes "app_reachable app"
  shows "\<exists>resp. get_normalized_node_handler app curies = Inr resp
           \<and> distinct (map fst resp)
           \<and> set (map fst resp) = set curies
           \<and> length resp = card (set curies)
           \<and> (\<forall>c\<in>set curies. map_of resp c = Some (resolve_one app c))
           \<and> (\<forall>c\<in>set curies. term_to_canonical app c = None \<longrightarrow> map_of resp c = Some None)
           \<and> (distinct curies \<longrightarrow> map fst resp = curies \<and> length resp = length curies)"
proof -
  define resp where "resp = keyed_by_identifier curies (map (resolve_one app) curies) []"
  have h: "get_normalized_node_handler app curies = Inr resp"
    using assms by (simp add: resp_def handler_response)
  have d: "distinct (map fst resp)"
    by (simp add: resp_def keyed_by_identifier_distinct)
  have s: "set (map fst resp) = set curies"
    using keyed_by_identifier_keys [of curies "resolve_one app" "[]"] by (simp add: resp_def)
  have l: "length resp = card (set curies)"
    using distinct_card [OF d] s by simp
  have m: "\<forall>c\<in>set curies. map_of resp c = Some (resolve_one app c)"
    by (simp add: resp_def keyed_by_identifier_map_of)
  have n: "\<forall>c\<in>set curies. term_to_canonical app c = None \<longrightarrow> map_of resp c = Some None"
    using m by (simp add: resolve_one_def)
  have o: "distinct curies \<longrightarrow> map fst resp = curies \<and> length resp = length curies"
  proof
    assume dc: "distinct curies"
    then have "map fst resp = curies"
      using keyed_by_identifier_order [of "[]" curies "resolve_one app"] by (simp add: resp_def)
    moreover from dc l have "length resp = length curies" by (simp add: distinct_card)
    ultimately show "map fst resp = curies \<and> length resp = length curies" by simp
  qed
  from h d s l m n o show ?thesis by blast
qed

text \<open>
  The object for the input \<open>[a, a, unknown]\<close> on the store of the tests has an entry for
  \<open>a\<close> and one for the unknown identifier; the object for \<open>[unknown, a]\<close> has its two
  entries in the order of the input.
\<close>

theorem response_one_entry_per_identifier_witness:
  "app_reachable test_app
   \<and> (\<exists>resp. get_normalized_node_handler test_app [''DOID:3812'', ''DOID:3812'', ''UNKNOWN:000000'']
                = Inr resp
         \<and> map_of resp ''DOID:3812'' = Some (Some mondo_node)
         \<and> map_of resp ''UNKNOWN:000000'' = Some None
         \<and> length resp = 2)
   \<and> (\<exists>resp. get_normalized_node_handler test_app [''UNKNOWN:000000'', ''DOID:3812''] = Inr resp
         \<and> map fst resp = [''UNKNOWN:000000'', ''DOID:3812''])"
proof -
  have r: "app_reachable test_app" by (simp add: app_reachable_def test_app_def)
  define curies where "curies = [''DOID:3812'', ''DOID:3812'', ''UNKNOWN:000000'']"
  define curies2 where "curies2 = [''UNKNOWN:000000'', ''DOID:3812'']"
  have mem: "''DOID:3812'' \<in> set curies" "''UNKNOWN:000000'' \<in> set curies"
    by (simp_all add: curies_def)
  have unknown: "term_to_canonical test_app ''UNKNOWN:000000'' = None"
    by (simp add: term_to_canonical_def test_app_def upper_def upper_char_def)
  have card: "card (set curies) = 2" by (simp add: curies_def)
  have dist: "distinct curies2" by (simp add: curies2_def)
  from response_one_entry_per_identifier [OF r, of curies]
  obtain resp where h: "get_normalized_node_handler test_app curies = Inr resp"
    and l: "length resp = card (set curies)"
    and m: "\<forall>c\<in>set curies. map_of resp c = Some (resolve_one test_app c)"
    and n: "\<forall>c\<in>set curies. term_to_canonical test_app c = None \<longrightarrow> map_of resp c = Some None"
    by blast
  from m mem(1) have a: "map_of resp ''DOID:3812'' = Some (Some mondo_node)"
    by (simp only: resolve_one_doid)
  from n mem(2) unknown have u: "map_of resp ''UNKNOWN:000000'' = Some None" by blast
  from l card have two: "length resp = 2" by simp
  from response_one_entry_per_identifier [OF r, of curies2] dist
  obtain resp2 where h2: "get_normalized_node_handler test_app curies2 = Inr resp2"
    and o2: "map fst resp2 = curies2"
    by blast
  from h a u two have first: "\<exists>resp. get_normalized_node_handler test_app curies = Inr resp
         \<and> map_of resp ''DOID:3812'' = Some (Some mondo_node)
         \<and> map_of resp ''UNKNOWN:000000'' = Some None
         \<and> length resp = 2" by blast
  from h2 o2 have second: "\<exists>resp. get_normalized_node_handler test_app curies2 = Inr resp
         \<and> map fst resp = curies2" by blast
  from r first second show ?thesis unfolding curies_def curies2_def by blast
qed

text \<open>
  C1, as the claim states it, fails: for the input \<open>[a, a, unknown]\<close> the response has two
  entries, not three, and the repeated identifier has one entry, not a slot at each of
  its positions.
\<close>

theorem response_not_one_slot_per_position:
  "get_normalized_node_handler test_app [''DOID:3812'', ''DOID:3812'', ''UNKNOWN:000000'']
     = Inr [(''DOID:3812'', Some mondo_node), (''UNKNOWN:000000'', None)]
   \<and> (case get_normalized_node_handler test_app [''DOID:3812'', ''DOID:3812'', ''UNKNOWN:000000''] of
         Inl e \<Rightarrow> 0 | Inr resp \<Rightarrow> length resp)
       \<noteq> length [''DOID:3812'', ''DOID:3812'', ''UNKNOWN:000000'']"
proof -
  have r: "app_reachable test_app" by (simp add: app_reachable_def test_app_def)
  have "map (resolve_one test_app) [''DOID:3812'', ''DOID:3812'', ''UNKNOWN:000000'']
          = [Some mondo_node, Some mondo_node, None]"
    by (simp only: list.map resolve_one_doid resolve_one_unknown)
  then have "get_normalized_node_handler test_app [''DOID:3812'', ''DOID:3812'', ''UNKNOWN:000000'']
     = Inr (keyed_by_identifier [''DOID:3812'', ''DOID:3812'', ''UNKNOWN:000000'']
              [Some mondo_node, Some mondo_node, None] [])"
    using handler_response [OF r, of "[''DOID:3812'', ''DOID:3812'', ''UNKNOWN:000000'']"]
    by (simp only:)
  then have "get_normalized_node_handler test_app [''DOID:3812'', ''DOID:3812'', ''UNKNOWN:000000'']
     = Inr [(''DOID:3812'', Some mondo_node), (''UNKNOWN:000000'', None)]"
    by simp
  then show ?thesis by simp
qed

text \<open>
  C8. When the store answers, resolution returns a list, and the slot of every
  identifier without a term-to-canonical entry is null; resolution raises only when a
  store does not answer, whatever the identifiers are.
\<close>

theorem unknown_identifier_resolves_to_null:
  "(app_reachable app \<longrightarrow>
      (\<exists>nodes. get_normalized_nodes app curies = Inr nodes \<and> length nodes = length curies
         \<and> (\<forall>i<length curies. map_of (kv (redis_connection0 app)) (upper (curies ! i)) = None
               \<longrightarrow> nodes ! i = None)))
   \<and> (get_normalized_nodes app curies = Inl e \<longrightarrow> \<not> app_reachable app)"
proof -
  have "\<forall>i<length curies. map_of (kv (redis_connection0 app)) (upper (curies ! i)) = None
      \<longrightarrow> map (resolve_one app) curies ! i = None"
    by (simp add: resolve_one_def term_to_canonical_def)
  then show ?thesis
    using get_normalized_nodes_error [of app curies e] by (simp add: get_normalized_nodes_map)
qed

theorem unknown_identifier_resolves_to_null_witness:
  "get_normalized_nodes test_app [''UNKNOWN:000000'', ''DOID:3812''] = Inr [None, Some mondo_node]
   \<and> get_normalized_nodes (test_app\<lparr>redis_connection0 := empty_db\<lparr>reachable := False\<rparr>\<rparr>)
        [''UNKNOWN:000000'', ''DOID:3812''] = Inl ConnectionError
   \<and> \<not> app_reachable (test_app\<lparr>redis_connection0 := empty_db\<lparr>reachable := False\<rparr>\<rparr>)"
proof -
  define curies where "curies = [''UNKNOWN:000000'', ''DOID:3812'']"
  define down where "down = test_app\<lparr>redis_connection0 := empty_db\<lparr>reachable := False\<rparr>\<rparr>"
  have r: "app_reachable test_app" by (simp add: app_reachable_def test_app_def)
  have unknown: "map_of (kv (redis_connection0 test_app)) (upper ''UNKNOWN:000000'') = None"
    by (simp add: test_app_def upper_def upper_char_def)
  from unknown_identifier_resolves_to_null [of test_app curies] r
  obtain nodes where h: "get_normalized_nodes test_app curies = Inr nodes"
    and len: "length nodes = length curies"
    and nul: "\<forall>i<length curies. map_of (kv (redis_connection0 test_app)) (upper (curies ! i)) = None
                \<longrightarrow> nodes ! i = None"
    by blast
  have "0 < length curies" and "curies ! 0 = ''UNKNOWN:000000''"
    by (simp_all add: curies_def)
  with nul unknown have n0: "nodes ! 0 = None" by metis
  from h r have eq: "nodes = map (resolve_one test_app) curies"
    by (simp add: get_normalized_nodes_map)
  have "map (resolve_one test_app) curies = [resolve_one test_app ''UNKNOWN:000000'', Some mondo_node]"
    unfolding curies_def by (simp only: list.map resolve_one_doid)
  with eq have two: "nodes = [nodes ! 0, Some mondo_node]" by simp
  with n0 have "nodes = [None, Some mondo_node]" by simp
  with h have c1: "get_normalized_nodes test_app curies = Inr [None, Some mondo_node]"
    by (simp only:)
  have c2: "get_normalized_nodes down curies = Inl ConnectionError"
    by (simp add: down_def get_normalized_nodes_def mget_def ebind_def empty_db_def)
  from c2 unknown_identifier_resolves_to_null [of down curies ConnectionError]
  have c3: "\<not> app_reachable down" by blast
  from c1 c2 c3 show ?thesis unfolding curies_def down_def by blast
qed

text \<open>
  C2. Ingesting the file that holds the specification's example record raises
  \<open>AttributeError\<close> inside \<open>load_compendium\<close>, which returns \<open>False\<close> and leaves the store
  empty; resolving either member identifier afterwards gives null, not a node whose
  identifier is \<open>MONDO:0005002\<close>.
\<close>

theorem ingested_record_is_not_resolvable:
  "fst (load_compendium_try (\<lambda>n. Some [disease_line]) ''Disease.txt'' 1000 empty_store biolink_toolkit False)
     = Some AttributeError
   \<and> (case load_compendium (\<lambda>n. Some [disease_line]) ''Disease.txt'' 1000 empty_store biolink_toolkit False of
        (loaded, cf) \<Rightarrow> (loaded, cf, get_normalized_nodes (app_of_store cf) [''MONDO:0005002'', ''doid:3812'']))
     = (False, empty_store, Inr [None, None])"
proof -
  have "fst (load_compendium_try (\<lambda>n. Some [disease_line]) ''Disease.txt'' 1000 empty_store biolink_toolkit False)
     = Some AttributeError"
    by (simp add: load_compendium_try_def open_file_def on_value_def and_then_def process_line_def
        json_loads_def disease_line_def disease_record_def ebind_def get_ancestors_def
        biolink_toolkit_def list_add_def initial_lstate_def Let_def)
  moreover have "get_normalized_nodes (app_of_store empty_store) [''MONDO:0005002'', ''doid:3812'']
     = Inr [None, None]"
    by (simp add: get_normalized_nodes_def mget_def app_of_store_def empty_store_def empty_db_def
        ebind_def Let_def)
  ultimately show ?thesis by (simp add: load_compendium_result)
qed

section \<open>Properties of the merge\<close>

lemma count_of_lk: "count_of sp t p = (case map_of sp t of None \<Rightarrow> 0 | Some d \<Rightarrow> lk d p)"
  by (simp add: count_of_def lk_def split: option.splits)

lemma lk_update: "lk (AList.update k v d) p = (if p = k then v else lk d p)"
  by (simp add: lk_def update_conv')

lemma add_curie_counts_sum:
  "list_all (\<lambda>kv. is_num (snd kv)) items \<Longrightarrow>
   \<exists>d'. add_curie_counts items d = Inr d' \<and> (\<forall>p. lk d' p = lk d p + items_sum items p)"
proof (induction items arbitrary: d)
  case Nil
  then show ?case by (simp add: items_sum_def)
next
  case (Cons kv items)
  obtain k v where kv: "kv = (k, v)" by (cases kv)
  from Cons.prems kv obtain m where v: "v = JNum m" by (cases v) auto
  let ?d2 = "AList.update k (lk d k + m) (AList.update k (lk d k) d)"
  from Cons.prems have "list_all (\<lambda>kv. is_num (snd kv)) items" by simp
  from Cons.IH [OF this, of ?d2] obtain d' where
    d': "add_curie_counts items ?d2 = Inr d'" and
    s: "\<forall>p. lk d' p = lk ?d2 p + items_sum items p" by blast
  have "add_curie_counts (kv # items) d = Inr d'"
    using d' by (simp add: kv v Let_def ebind_def update_conv' lk_def)
  moreover have "lk d' p = lk d p + items_sum (kv # items) p" for p
    using s by (simp add: kv v lk_update items_sum_def)
  ultimately show ?case by blast
qed

lemma count_of_update:
  "count_of (AList.update k d sp) t p = (if t = k then lk d p else count_of sp t p)"
  by (simp add: count_of_lk update_conv')

lemma add_prefix_counts_sum:
  "list_all (\<lambda>kv. wf_counts (snd kv)) items \<Longrightarrow>
   \<exists>sp'. add_prefix_counts items sp = Inr sp' \<and>
         (\<forall>t p. count_of sp' t p = count_of sp t p + types_sum items t p)"
proof (induction items arbitrary: sp)
  case Nil
  then show ?case by (simp add: types_sum_def)
next
  case (Cons kv items)
  obtain k v where kv: "kv = (k, v)" by (cases kv)
  from Cons.prems kv obtain cs where v: "v = JObj cs" and nums: "list_all (\<lambda>kv. is_num (snd kv)) cs"
    by (cases v) auto
  let ?cur = "case map_of sp k of None \<Rightarrow> [] | Some d \<Rightarrow> d"
  let ?sp1 = "AList.update k ?cur sp"
  from add_curie_counts_sum [OF nums, of ?cur] obtain d where
    d: "add_curie_counts cs ?cur = Inr d" and ds: "\<forall>p. lk d p = lk ?cur p + items_sum cs p" by blast
  from Cons.prems have "list_all (\<lambda>kv. wf_counts (snd kv)) items" by simp
  from Cons.IH [OF this, of "AList.update k d ?sp1"] obtain sp' where
    sp': "add_prefix_counts items (AList.update k d ?sp1) = Inr sp'" and
    s: "\<forall>t p. count_of sp' t p = count_of (AList.update k d ?sp1) t p + types_sum items t p" by blast
  have "add_prefix_counts (kv # items) sp = Inr sp'"
    using d sp' by (simp add: kv v Let_def ebind_def update_conv')
  moreover have "count_of sp' t p = count_of sp t p + types_sum (kv # items) t p" for t p
  proof -
    have "lk ?cur p = count_of sp k p" by (simp add: count_of_lk lk_def split: option.splits)
    with s ds show ?thesis by (simp add: kv v count_of_update types_sum_def)
  qed
  ultimately show ?case by blast
qed

lemma sum_distinct_lookup:
  "distinct (map fst kvs) \<Longrightarrow>
   sum_list (map (\<lambda>kv. if fst kv = k then g (snd kv) else (0::int)) kvs) =
     (case map_of kvs k of None \<Rightarrow> 0 | Some v \<Rightarrow> g v)"
proof (induction kvs)
  case Nil
  then show ?case by simp
next
  case (Cons kv kvs)
  then show ?case
    by (cases kv) (auto simp: map_of_eq_None_iff image_iff split: option.splits)
qed

lemma items_sum_lookup:
  "distinct (map fst cs) \<Longrightarrow> items_sum cs p = json_count (map_of cs p)"
  unfolding items_sum_def
  by (subst sum_distinct_lookup [where g = "\<lambda>v. json_count (Some v)"]) (simp_all split: option.splits)

lemma types_sum_lookup:
  assumes "wf_types (JObj ts)"
  shows "types_sum ts t p = json_count (json_field (map_of ts t) p)"
proof -
  from assms have dist: "distinct (map fst ts)" and wf: "list_all (\<lambda>kv. wf_counts (snd kv)) ts"
    by simp_all
  have "types_sum ts t p = (case map_of ts t of None \<Rightarrow> 0 | Some v \<Rightarrow> items_sum (counts_of_json v) p)"
    unfolding types_sum_def using dist
    by (rule sum_distinct_lookup [where g = "\<lambda>v. items_sum (counts_of_json v) p"])
  also have "\<dots> = json_count (json_field (map_of ts t) p)"
  proof (cases "map_of ts t")
    case None
    then show ?thesis by simp
  next
    case (Some v)
    then have "(t, v) \<in> set ts" by (rule map_of_SomeD)
    with wf have "wf_counts v" by (auto simp: list_all_iff)
    then obtain cs where "v = JObj cs" "distinct (map fst cs)" by (cases v) auto
    with Some show ?thesis by (simp add: items_sum_lookup)
  qed
  finally show ?thesis .
qed

lemma merge_files_sum:
  "list_all (\<lambda>f. wf_partial (snd f)) files \<Longrightarrow>
   \<exists>agg. merge_files files sp = Inr agg \<and>
         (\<forall>t p. count_of agg t p = count_of sp t p + (\<Sum>f\<leftarrow>files. partial_count (snd f) t p))"
proof (induction files arbitrary: sp)
  case Nil
  then show ?case by simp
next
  case (Cons f files)
  obtain key data where f: "f = (key, data)" by (cases f)
  from Cons.prems f have "wf_partial data" by simp
  then obtain kvs ts where data: "data = JObj kvs" and sp_field: "map_of kvs ''source_prefixes'' = Some (JObj ts)"
    and wf: "wf_types (JObj ts)"
    by (cases data) (auto split: option.splits elim: wf_types.elims)
  from wf have "list_all (\<lambda>kv. wf_counts (snd kv)) ts" by simp
  from add_prefix_counts_sum [OF this, of sp] obtain sp1 where
    sp1: "add_prefix_counts ts sp = Inr sp1" and
    s1: "\<forall>t p. count_of sp1 t p = count_of sp t p + types_sum ts t p" by blast
  from Cons.prems have "list_all (\<lambda>f. wf_partial (snd f)) files" by simp
  from Cons.IH [OF this, of sp1] obtain agg where
    agg: "merge_files files sp1 = Inr agg" and
    s2: "\<forall>t p. count_of agg t p = count_of sp1 t p + (\<Sum>f\<leftarrow>files. partial_count (snd f) t p)" by blast
  have "merge_files (f # files) sp = Inr agg"
    using sp1 agg by (simp add: f data sp_field ebind_def)
  moreover have "count_of agg t p = count_of sp t p + (\<Sum>f\<leftarrow>f # files. partial_count (snd f) t p)" for t p
  proof -
    have "partial_count data t p = types_sum ts t p"
      by (simp add: partial_count_def data sp_field types_sum_lookup [OF wf])
    with s1 s2 show ?thesis by (simp add: f)
  qed
  ultimately show ?case by blast
qed

lemma count_of_Nil: "count_of [] t p = 0"
  by (simp add: count_of_def)

text \<open>
  C7. For well-formed per-file partials the merge succeeds, the merged count of every
  (type, prefix) pair is the sum of the pair's counts over the files, and the files taken
  in any other order give the same counts.
\<close>

theorem merged_count_is_sum_over_files:
  assumes "list_all (\<lambda>f. wf_partial (snd f)) files"
  shows "\<exists>agg. merge_files files [] = Inr agg
           \<and> (\<forall>t p. count_of agg t p = (\<Sum>f\<leftarrow>files. partial_count (snd f) t p))
           \<and> (\<forall>files'. mset files' = mset files \<longrightarrow>
                 (\<exists>agg'. merge_files files' [] = Inr agg' \<and> (\<forall>t p. count_of agg' t p = count_of agg t p)))"
proof -
  from merge_files_sum [OF assms, of "[]"] obtain agg where
    agg: "merge_files files [] = Inr agg" and
    s: "\<forall>t p. count_of agg t p = (\<Sum>f\<leftarrow>files. partial_count (snd f) t p)"
    by (auto simp: count_of_Nil)
  have "\<exists>agg'. merge_files files' [] = Inr agg' \<and> (\<forall>t p. count_of agg' t p = count_of agg t p)"
    if perm: "mset files' = mset files" for files'
  proof -
    from perm have "set files' = set files" by (rule mset_eq_setD)
    with assms have "list_all (\<lambda>f. wf_partial (snd f)) files'" by (simp add: list_all_iff)
    from merge_files_sum [OF this, of "[]"] obtain agg' where
      agg': "merge_files files' [] = Inr agg'" and
      s': "\<forall>t p. count_of agg' t p = (\<Sum>f\<leftarrow>files'. partial_count (snd f) t p)"
      by (auto simp: count_of_Nil)
    have "(\<Sum>f\<leftarrow>files'. partial_count (snd f) t p) = (\<Sum>f\<leftarrow>files. partial_count (snd f) t p)" for t p
    proof -
      have "mset (map (\<lambda>f. partial_count (snd f) t p) files') = mset (map (\<lambda>f. partial_count (snd f) t p) files)"
        using perm by (metis mset_map)
      then show ?thesis by (metis sum_mset_sum_list)
    qed
    with s s' agg' show ?thesis by simp
  qed
  with agg s show ?thesis by blast
qed

text \<open>Partials of 3 and 5 for \<open>X\<close> under \<open>T\<close> merge to 8, in either order.\<close>

theorem merged_count_is_sum_over_files_witness:
  "list_all (\<lambda>f. wf_partial (snd f)) [(''file-a'', partial_a), (''file-b'', partial_b)]
   \<and> (\<exists>agg agg'. merge_files [(''file-a'', partial_a), (''file-b'', partial_b)] [] = Inr agg
         \<and> merge_files [(''file-b'', partial_b), (''file-a'', partial_a)] [] = Inr agg'
         \<and> count_of agg ''T'' ''X'' = 8 \<and> count_of agg' ''T'' ''X'' = 8)"
proof -
  let ?files = "[(''file-a'', partial_a), (''file-b'', partial_b)]"
  let ?files' = "[(''file-b'', partial_b), (''file-a'', partial_a)]"
  have wf: "list_all (\<lambda>f. wf_partial (snd f)) ?files"
    by (simp add: partial_a_def partial_b_def)
  have perm: "mset ?files' = mset ?files" by (simp add: add.commute)
  from merged_count_is_sum_over_files [OF wf] obtain agg where
    agg: "merge_files ?files [] = Inr agg" and
    s: "\<forall>t p. count_of agg t p = (\<Sum>f\<leftarrow>?files. partial_count (snd f) t p)" and
    p: "\<forall>files'. mset files' = mset ?files \<longrightarrow>
          (\<exists>agg'. merge_files files' [] = Inr agg' \<and> (\<forall>t p. count_of agg' t p = count_of agg t p))"
    by blast
  from p perm obtain agg' where
    agg': "merge_files ?files' [] = Inr agg'" and
    same: "\<forall>t p. count_of agg' t p = count_of agg t p" by blast
  from s have "count_of agg ''T'' ''X'' = 8"
    by (simp add: partial_count_def partial_a_def partial_b_def)
  with same have "count_of agg' ''T'' ''X'' = 8" by simp
  with wf agg agg' \<open>count_of agg ''T'' ''X'' = 8\<close> show ?thesis by blast
qed

lemma apply_sets_Nil: "apply_sets [] al = al"
  by (simp add: apply_sets_def)

lemma apply_sets_Cons: "apply_sets (e # kvs) al = apply_sets kvs (AList.update (fst e) (snd e) al)"
  by (simp add: apply_sets_def)

lemma reachable_fold: "reachable (fold apply_cmd p d) = reachable d"
proof (induction p arbitrary: d)
  case Nil
  then show ?case by simp
next
  case (Cons c p)
  then show ?case by (cases c) simp_all
qed

lemma kv_fold: "kv (fold apply_cmd p d) = apply_sets (sets_of p) (kv d)"
proof (induction p arbitrary: d)
  case Nil
  then show ?case by (simp add: apply_sets_Nil)
next
  case (Cons c p)
  then show ?case by (cases c) (simp_all add: apply_sets_Cons)
qed

lemma map_of_apply_sets_other:
  "k \<notin> fst ` set kvs \<Longrightarrow> map_of (apply_sets kvs al) k = map_of al k"
  by (induction kvs arbitrary: al) (auto simp: apply_sets_Nil apply_sets_Cons update_conv')

lemma map_of_apply_sets_distinct:
  "distinct (map fst kvs) \<Longrightarrow> (k, v) \<in> set kvs \<Longrightarrow> map_of (apply_sets kvs al) k = Some v"
proof (induction kvs arbitrary: al)
  case Nil
  then show ?case by simp
next
  case (Cons e kvs)
  show ?case
  proof (cases "e = (k, v)")
    case True
    with Cons.prems(1) have "k \<notin> fst ` set kvs" by auto
    with True show ?thesis
      by (simp add: apply_sets_Cons map_of_apply_sets_other update_conv')
  next
    case False
    with Cons show ?thesis by (simp add: apply_sets_Cons)
  qed
qed

lemma apply_sets_triv:
  "(\<And>k v. (k, v) \<in> set kvs \<Longrightarrow> map_of al k = Some v) \<Longrightarrow> apply_sets kvs al = al"
proof (induction kvs)
  case Nil
  then show ?case by (simp add: apply_sets_Nil)
next
  case (Cons e kvs)
  have "map_of al (fst e) = Some (snd e)" using Cons.prems [of "fst e" "snd e"] by simp
  then have "AList.update (fst e) (snd e) al = al" by (rule update_triv)
  moreover have "apply_sets kvs al = al" using Cons by simp
  ultimately show ?case by (simp add: apply_sets_Cons)
qed

lemma apply_sets_twice:
  "distinct (map fst kvs) \<Longrightarrow> apply_sets kvs (apply_sets kvs al) = apply_sets kvs al"
  by (rule apply_sets_triv) (rule map_of_apply_sets_distinct)

text \<open>Keys that are not per-file keys leave the per-file partials as they are.\<close>

lemma remdups_snoc: "k \<notin> set xs \<Longrightarrow> remdups (xs @ [k]) = remdups xs @ [k]"
  by (induction xs) auto

lemma file_keys_update:
  "\<not> is_file_key k \<Longrightarrow>
   filter is_file_key (remdups (map fst (AList.update k v al))) = filter is_file_key (remdups (map fst al))"
  by (simp add: update_keys remdups_snoc)

lemma file_keys_apply_sets:
  "list_all (\<lambda>kv. \<not> is_file_key (fst kv)) kvs \<Longrightarrow>
   filter is_file_key (remdups (map fst (apply_sets kvs al))) = filter is_file_key (remdups (map fst al))"
  by (induction kvs arbitrary: al) (simp_all add: apply_sets_Nil apply_sets_Cons file_keys_update)

lemma map_of_apply_sets_file_key:
  "list_all (\<lambda>kv. \<not> is_file_key (fst kv)) kvs \<Longrightarrow> is_file_key k \<Longrightarrow>
   map_of (apply_sets kvs al) k = map_of al k"
  by (rule map_of_apply_sets_other) (auto simp: list_all_iff)

lemma all_meta_data_eq:
  "all_meta_data d =
     (if reachable d
      then Inr (collect_meta_data (file_partial_keys d) (map (map_of (kv d)) (file_partial_keys d)))
      else Inl ConnectionError)"
  by (simp add: all_meta_data_def adapter_keys_def mget_def ebind_def Let_def file_partial_keys_def)

lemma all_meta_data_fold:
  assumes "list_all (\<lambda>kv. \<not> is_file_key (fst kv)) (sets_of p)"
  shows "all_meta_data (fold apply_cmd p d) = all_meta_data d"
proof -
  define d1 where "d1 = fold apply_cmd p d"
  have r1: "reachable d1 = reachable d" by (simp add: d1_def reachable_fold)
  have "filter is_file_key (remdups (map fst (kv d1))) = filter is_file_key (remdups (map fst (kv d)))"
    using assms by (simp add: d1_def kv_fold file_keys_apply_sets)
  then have keys: "file_partial_keys d1 = file_partial_keys d"
    by (simp only: file_partial_keys_def)
  have "map_of (kv d1) k = map_of (kv d) k" if "k \<in> set (file_partial_keys d)" for k
  proof -
    from that have "is_file_key k" by (simp add: file_partial_keys_def)
    with assms show ?thesis by (simp add: d1_def kv_fold map_of_apply_sets_file_key)
  qed
  then have "map (map_of (kv d1)) (file_partial_keys d) = map (map_of (kv d)) (file_partial_keys d)"
    by simp
  with r1 keys have "all_meta_data d1 = all_meta_data d" by (simp only: all_meta_data_eq)
  then show ?thesis by (simp only: d1_def)
qed

lemma sets_of_merge_commands:
  "sets_of (merge_commands sp) = map (\<lambda>td. (fst td, counts_json (snd td))) sp"
proof -
  have "sets_of (map (\<lambda>td. Set (fst td) (counts_json (snd td))) sp) = map (\<lambda>td. (fst td, counts_json (snd td))) sp"
    by (induction sp) simp_all
  then show ?thesis by (simp add: merge_commands_def)
qed

lemma add_prefix_counts_distinct:
  "add_prefix_counts items sp = Inr sp' \<Longrightarrow> distinct (map fst sp) \<Longrightarrow> distinct (map fst sp')"
proof (induction items arbitrary: sp)
  case Nil
  then show ?case by simp
next
  case (Cons kv items)
  obtain k v where kv: "kv = (k, v)" by (cases kv)
  let ?sp1 = "AList.update k (case map_of sp k of None \<Rightarrow> [] | Some d \<Rightarrow> d) sp"
  from Cons.prems(1) kv obtain its d where
    "add_prefix_counts items (AList.update k d ?sp1) = Inr sp'"
    by (auto simp: Let_def ebind_Inr_iff)
  moreover have "distinct (map fst (AList.update k d ?sp1))"
    using Cons.prems(2) by (simp add: distinct_update)
  ultimately show ?case by (rule Cons.IH)
qed

lemma merge_files_distinct:
  "merge_files files sp = Inr agg \<Longrightarrow> distinct (map fst sp) \<Longrightarrow> distinct (map fst agg)"
proof (induction files arbitrary: sp)
  case Nil
  then show ?case by simp
next
  case (Cons f files)
  obtain key data where f: "f = (key, data)" by (cases f)
  from Cons.prems(1) f obtain items sp1 where
    "add_prefix_counts items sp = Inr sp1" and "merge_files files sp1 = Inr agg"
    by (auto simp: ebind_Inr_iff)
  with Cons.prems(2) Cons.IH show ?case by (blast dest: add_prefix_counts_distinct)
qed

text \<open>
  C6, as the code has it. When a run of the merge has succeeded and none of the keys it
  writes is a per-file key, a second run right after it builds the same pipeline, command
  for command, and leaves every string value of the statistics database as the first
  run left it: the counts are computed from the per-file partials again, not added to
  what is there.
\<close>

theorem merge_twice_same_output:
  assumes first: "merge_semantic_meta_data cf dry_run = (None, cf1)"
    and pipe: "merge_pipeline (curie_to_bl_type_db cf) = Inr p"
    and nofile: "\<forall>c\<in>set p. \<not> is_file_key (cmd_key c)"
  shows "merge_pipeline (curie_to_bl_type_db cf1) = Inr p
         \<and> (\<exists>cf2. merge_semantic_meta_data cf1 dry_run = (None, cf2)
               \<and> kv (curie_to_bl_type_db cf2) = kv (curie_to_bl_type_db cf1))"
proof (cases dry_run)
  case True
  with first pipe have "cf1 = cf" by (simp add: merge_semantic_meta_data_def on_value_def)
  with first pipe show ?thesis by auto
next
  case False
  let ?d = "curie_to_bl_type_db cf"
  let ?d1 = "fold apply_cmd p ?d"
  from first pipe False have reach: "reachable ?d" and cf1: "cf1 = cf\<lparr>curie_to_bl_type_db := ?d1\<rparr>"
    by (auto simp: merge_semantic_meta_data_def on_value_def execute_pipeline_def split: if_splits)
  have nofile': "list_all (\<lambda>kv. \<not> is_file_key (fst kv)) (sets_of p)"
    using nofile by (induction p rule: sets_of.induct) simp_all
  have amd: "all_meta_data ?d1 = all_meta_data ?d" by (rule all_meta_data_fold [OF nofile'])
  then have pipe1: "merge_pipeline ?d1 = Inr p" using pipe by (simp add: merge_pipeline_def)
  from pipe obtain amd0 sp where "merge_files amd0 [] = Inr sp" and p: "p = merge_commands sp"
    by (auto simp: merge_pipeline_def ebind_Inr_iff)
  then have "distinct (map fst sp)" using merge_files_distinct [of amd0 "[]" sp] by simp
  then have "distinct (map fst (sets_of p))"
    by (simp add: p sets_of_merge_commands comp_def)
  then have twice: "kv (fold apply_cmd p ?d1) = kv ?d1"
    by (simp add: kv_fold apply_sets_twice)
  have "merge_semantic_meta_data cf1 dry_run = (None, cf1\<lparr>curie_to_bl_type_db := fold apply_cmd p ?d1\<rparr>)"
    using pipe1 False reach
    by (simp add: cf1 merge_semantic_meta_data_def on_value_def execute_pipeline_def reachable_fold)
  with pipe1 twice show ?thesis by (simp add: cf1)
qed

lemma merge_pipeline_stats_db: "merge_pipeline stats_db = Inr stats_pipeline"
  by (simp add: merge_pipeline_def all_meta_data_def adapter_keys_def mget_def stats_db_def
      is_file_key_def partial_a_def partial_b_def ebind_def Let_def merge_commands_def
      counts_json_def stats_pipeline_def)

text \<open>
  Two runs on the database of the two partials: the second run builds the pipeline of
  the first and leaves the counts of \<open>T\<close> at 8 and 1.
\<close>

theorem merge_twice_same_output_witness:
  "merge_semantic_meta_data stats_store False
     = (None, stats_store\<lparr>curie_to_bl_type_db := fold apply_cmd stats_pipeline stats_db\<rparr>)
   \<and> merge_pipeline (fold apply_cmd stats_pipeline stats_db) = Inr stats_pipeline
   \<and> (\<exists>cf2. merge_semantic_meta_data
                (stats_store\<lparr>curie_to_bl_type_db := fold apply_cmd stats_pipeline stats_db\<rparr>) False
              = (None, cf2)
         \<and> kv (curie_to_bl_type_db cf2) = kv (fold apply_cmd stats_pipeline stats_db))"
proof -
  define cf1 where "cf1 = stats_store\<lparr>curie_to_bl_type_db := fold apply_cmd stats_pipeline stats_db\<rparr>"
  have db: "curie_to_bl_type_db stats_store = stats_db" by (simp add: stats_store_def)
  have db1: "curie_to_bl_type_db cf1 = fold apply_cmd stats_pipeline stats_db" by (simp add: cf1_def)
  have pipe: "merge_pipeline (curie_to_bl_type_db stats_store) = Inr stats_pipeline"
    by (simp only: db merge_pipeline_stats_db)
  have reach: "reachable stats_db" by (simp add: stats_db_def)
  have first: "merge_semantic_meta_data stats_store False = (None, cf1)"
    by (simp add: merge_semantic_meta_data_def db merge_pipeline_stats_db on_value_def
        execute_pipeline_def reach cf1_def)
  have nofile: "\<forall>c\<in>set stats_pipeline. \<not> is_file_key (cmd_key c)"
    by (simp add: stats_pipeline_def is_file_key_def)
  from merge_twice_same_output [OF first pipe nofile]
  have "merge_pipeline (curie_to_bl_type_db cf1) = Inr stats_pipeline
         \<and> (\<exists>cf2. merge_semantic_meta_data cf1 False = (None, cf2)
               \<and> kv (curie_to_bl_type_db cf2) = kv (curie_to_bl_type_db cf1))" .
  with first show ?thesis unfolding db1 unfolding cf1_def by blast
qed

text \<open>
  C6, as the claim states it, fails when a semantic type is named like a per-file key:
  the first run succeeds and writes the counts of the type \<open>file-x\<close> under the key
  \<open>file-x\<close>; the second run reads that key back as a per-file partial and raises
  \<open>KeyError\<close> at \<open>data["source_prefixes"]\<close>.
\<close>

theorem merge_twice_fails_on_file_named_type:
  "(case merge_semantic_meta_data clash_store False of
      (e, cf1) \<Rightarrow> (e, kv (curie_to_bl_type_db cf1), fst (merge_semantic_meta_data cf1 False)))
     = (None,
        [(''file-a'', JObj [(''source_prefixes'', JObj [(''file-x'', JObj [(''A'', JNum 1)])])]),
         (''file-x'', JObj [(''A'', JNum 1)])],
        Some KeyError)"
proof -
  have p1: "merge_pipeline clash_db
      = Inr [Lpush ''semantic_types'' [JStr ''file-x''], Set ''file-x'' (JObj [(''A'', JNum 1)])]"
    by (simp add: merge_pipeline_def all_meta_data_def adapter_keys_def mget_def clash_db_def
        is_file_key_def ebind_def Let_def merge_commands_def counts_json_def)
  define d1 where "d1 = fold apply_cmd
      [Lpush ''semantic_types'' [JStr ''file-x''], Set ''file-x'' (JObj [(''A'', JNum 1)])] clash_db"
  have kv1: "kv d1 = [(''file-a'', JObj [(''source_prefixes'', JObj [(''file-x'', JObj [(''A'', JNum 1)])])]),
         (''file-x'', JObj [(''A'', JNum 1)])]"
    by (simp add: d1_def clash_db_def)
  have r1: "reachable d1" by (simp add: d1_def reachable_fold clash_db_def)
  have r0: "reachable clash_db" by (simp add: clash_db_def)
  have first: "merge_semantic_meta_data clash_store False
      = (None, clash_store\<lparr>curie_to_bl_type_db := d1\<rparr>)"
    by (simp add: merge_semantic_meta_data_def clash_store_def p1 on_value_def execute_pipeline_def
        d1_def r0)
  have p2: "merge_pipeline d1 = Inl KeyError"
    by (simp add: merge_pipeline_def all_meta_data_eq file_partial_keys_def r1 kv1 is_file_key_def
        ebind_def Let_def)
  have second: "fst (merge_semantic_meta_data (clash_store\<lparr>curie_to_bl_type_db := d1\<rparr>) False)
      = Some KeyError"
    by (simp add: merge_semantic_meta_data_def p2 on_value_def)
  from first second kv1 show ?thesis by simp
qed



section \<open>Properties of the driver and of the counting\<close>

text \<open>Once a file has been handed to \<open>load_compendium\<close>, \<open>load\<close> raises at line 72.\<close>

lemma load_file_raises:
  "load_file fs tk block_size dry_run comp_file cf = (Some NameError, cf)"
  by (simp add: load_file_def load_compendium_result source_prefixes_in_load_def on_value_def)

lemma load_raises:
  "all_valid validate_compendium (comp_file # comps) \<Longrightarrow>
   load fs validate_compendium tk cf (comp_file # comps) block_size dry_run = (Inl NameError, cf)"
  by (simp add: load_def load_file_raises and_then_def)

text \<open>
  C5. \<open>load\<close> on the file of the example record, and on a file without lines that
  \<open>load_compendium\<close> loads: each time \<open>load\<close> raises \<open>NameError\<close>, and the statistics
  database holds nothing under the file's key afterwards.
\<close>

theorem per_file_statistics_not_persisted:
  "load (\<lambda>n. Some [disease_line]) (\<lambda>c. True) biolink_toolkit empty_store [''Disease.txt''] 1000 False
     = (Inl NameError, empty_store)
   \<and> load_compendium (\<lambda>n. Some []) ''Empty.txt'' 1000 empty_store biolink_toolkit False
     = (True, empty_store)
   \<and> load (\<lambda>n. Some []) (\<lambda>c. True) biolink_toolkit empty_store [''Empty.txt''] 1000 False
     = (Inl NameError, empty_store)
   \<and> map_of (kv (curie_to_bl_type_db (snd
        (load (\<lambda>n. Some []) (\<lambda>c. True) biolink_toolkit empty_store [''Empty.txt''] 1000 False))))
        ''file-Empty.txt'' = None"
proof -
  have a: "load fs (\<lambda>c. True) biolink_toolkit empty_store [name] 1000 False = (Inl NameError, empty_store)"
    for fs name
    by (rule load_raises) simp
  have b: "load_compendium (\<lambda>n. Some []) ''Empty.txt'' 1000 empty_store biolink_toolkit False
     = (True, empty_store)"
    by (simp add: load_compendium_result all_reachable_def empty_store_def empty_db_def)
  have c: "map_of (kv (curie_to_bl_type_db empty_store)) ''file-Empty.txt'' = None"
    by (simp add: empty_store_def empty_db_def)
  from a b c show ?thesis by simp
qed

text \<open>
  C4. Ingesting the file of the example record, of type \<open>biolink:Disease\<close> with the chain
  \<open>biolink:Disease\<close>, \<open>biolink:NamedThing\<close>, raises \<open>AttributeError\<close> at the first statement
  of the loop over the chain: the prefix counts are still empty then, under both types.
  The statements after it in the loop body, run for the two types, would count the
  prefixes \<open>MONDO\<close> and \<open>DOID\<close> once under each type.
\<close>

theorem prefix_counts_not_incremented:
  "(case load_compendium_try (\<lambda>n. Some [disease_line]) ''Disease.txt'' 1000 empty_store biolink_toolkit False of
      (e, st) \<Rightarrow> (e, ancestor_map st, source_prefixes st))
     = (Some AttributeError,
        [(JStr ''biolink:Disease'', [JStr ''biolink:Disease'', JStr ''biolink:NamedThing''])],
        [])
   \<and> source_prefixes (snd
        (and_then (stage_semantic_type disease_record (JStr ''MONDO:0005002'') (JStr ''biolink:Disease'')
                     (initial_lstate empty_store))
           (stage_semantic_type disease_record (JStr ''MONDO:0005002'') (JStr ''biolink:NamedThing''))))
     = [(JStr ''biolink:Disease'', [(''MONDO'', 1), (''DOID'', 1)]),
        (JStr ''biolink:NamedThing'', [(''MONDO'', 1), (''DOID'', 1)])]"
proof -
  have a: "(case load_compendium_try (\<lambda>n. Some [disease_line]) ''Disease.txt'' 1000 empty_store biolink_toolkit False of
      (e, st) \<Rightarrow> (e, ancestor_map st, source_prefixes st))
     = (Some AttributeError,
        [(JStr ''biolink:Disease'', [JStr ''biolink:Disease'', JStr ''biolink:NamedThing''])],
        [])"
    by (simp add: load_compendium_try_def open_file_def on_value_def and_then_def process_line_def
        json_loads_def disease_line_def disease_record_def ebind_def get_ancestors_def
        biolink_toolkit_def list_add_def initial_lstate_def Let_def)
  have b: "source_prefixes (snd
        (and_then (stage_semantic_type disease_record (JStr ''MONDO:0005002'') (JStr ''biolink:Disease'')
                     (initial_lstate empty_store))
           (stage_semantic_type disease_record (JStr ''MONDO:0005002'') (JStr ''biolink:NamedThing''))))
     = [(JStr ''biolink:Disease'', [(''MONDO'', 1), (''DOID'', 1)]),
        (JStr ''biolink:NamedThing'', [(''MONDO'', 1), (''DOID'', 1)])]"
    by (simp add: stage_semantic_type_def stage_equivalent_id_def bump_prefix_def on_value_def
        and_then_def disease_record_def ebind_def initial_lstate_def Let_def upper_def upper_char_def)
  from a b show ?thesis by (rule conjI)
qed


section \<open>Properties of the structural pre-check\<close>

lemma validate_lines_list_all:
  "validate_lines schema_ok ls = list_all (record_passes schema_ok) ls"
proof (induction ls)
  case Nil
  then show ?case by simp
next
  case (Cons l ls)
  then show ?case by (cases "json_loads l") (simp_all add: record_passes_def)
qed

lemma validate_compendia_opened:
  "open_file fs in_file = Inr ls \<Longrightarrow>
   validate_compendia fs schema_ok in_file = Inr (list_all (record_passes schema_ok) (take 5 ls))"
  by (simp add: validate_compendia_def ebind_def validate_lines_list_all)

text \<open>
  C9. The pre-check of a file that opens says whether every one of the first five
  lines parses and satisfies the schema: it rejects the file when one of these lines
  fails and accepts it when all of them pass; later lines are not looked at. A rejected
  file is not ingested: \<open>NodeLoader.load\<close> goes on to the next file without handing it to
  ingestion (an accepted file is handed on), and \<open>load\<close> of \<open>load_compendium.py\<close> returns
  \<open>False\<close> with the store untouched when a file is rejected.
\<close>

theorem pre_check_samples_five_lines:
  "(open_file fs in_file = Inr ls \<longrightarrow>
      validate_compendia fs schema_ok in_file = Inr (list_all (record_passes schema_ok) (take 5 ls)))
   \<and> (open_file fs in_file = Inr ls \<and> l \<in> set (take 5 ls) \<and> \<not> record_passes schema_ok l \<longrightarrow>
        validate_compendia fs schema_ok in_file = Inr False)
   \<and> (open_file fs in_file = Inr ls \<and> (\<forall>l\<in>set (take 5 ls). record_passes schema_ok l) \<longrightarrow>
        validate_compendia fs schema_ok in_file = Inr True)
   \<and> (validate_compendia fs schema_ok comp_file = Inr False \<longrightarrow>
        node_loader_load_files fs schema_ok load_one (comp_file # comps) s
          = node_loader_load_files fs schema_ok load_one comps s)
   \<and> (validate_compendia fs schema_ok comp_file = Inr True \<longrightarrow>
        node_loader_load_files fs schema_ok load_one (comp_file # comps) s
          = node_loader_load_files fs schema_ok load_one comps (snd (load_one comp_file s)))
   \<and> (\<not> all_valid validate_compendium compendium_file \<longrightarrow>
        load fs validate_compendium tk cf compendium_file block_size dry_run = (Inr False, cf))"
proof -
  have a: "validate_compendia fs schema_ok in_file = Inr False"
    if "open_file fs in_file = Inr ls" and "l \<in> set (take 5 ls)" and "\<not> record_passes schema_ok l"
    using that by (auto simp: validate_compendia_opened list_all_iff)
  have b: "validate_compendia fs schema_ok in_file = Inr True"
    if "open_file fs in_file = Inr ls" and "\<forall>l\<in>set (take 5 ls). record_passes schema_ok l"
    using that by (simp add: validate_compendia_opened list_all_iff)
  have c: "load fs validate_compendium tk cf compendium_file block_size dry_run = (Inr False, cf)"
    if "\<not> all_valid validate_compendium compendium_file"
    using that by (simp add: load_def)
  from a b c show ?thesis by (simp add: validate_compendia_opened)
qed

lemma disease_line_passes: "record_passes example_schema disease_line"
  by (simp add: record_passes_def json_loads_def disease_line_def disease_record_def example_schema_def)

lemma broken_line_fails: "\<not> record_passes example_schema broken_line"
  by (simp add: record_passes_def json_loads_def broken_line_def)

text \<open>
  The file with five records and a broken sixth line is accepted and ingested, the file
  with a broken second line is rejected and not ingested, and \<open>load\<close> returns \<open>False\<close> for
  the two files together.
\<close>

theorem pre_check_samples_five_lines_witness:
  "validate_compendia example_fs example_schema ''Good.txt'' = Inr True
   \<and> validate_compendia example_fs example_schema ''Bad.txt'' = Inr False
   \<and> node_loader_load_files example_fs example_schema record_file [''Bad.txt'', ''Good.txt''] []
       = (None, [''Good.txt''])
   \<and> load example_fs (\<lambda>c. c \<noteq> ''Bad.txt'') biolink_toolkit empty_store [''Good.txt'', ''Bad.txt''] 1000 False
       = (Inr False, empty_store)"
proof -
  define good where "good = [disease_line, disease_line, disease_line, disease_line, disease_line, broken_line]"
  define bad where "bad = [disease_line, broken_line]"
  have og: "open_file example_fs ''Good.txt'' = Inr good"
    by (simp add: open_file_def example_fs_def good_def)
  have ob: "open_file example_fs ''Bad.txt'' = Inr bad"
    by (simp add: open_file_def example_fs_def bad_def)
  have pg: "\<forall>l\<in>set (take 5 good). record_passes example_schema l"
    by (simp add: good_def disease_line_passes)
  have mb: "broken_line \<in> set (take 5 bad)" by (simp add: bad_def)
  have vg: "validate_compendia example_fs example_schema ''Good.txt'' = Inr True"
  proof (rule pre_check_samples_five_lines [THEN conjunct2, THEN conjunct2, THEN conjunct1, THEN mp])
    from og pg show "open_file example_fs ''Good.txt'' = Inr good
        \<and> (\<forall>l\<in>set (take 5 good). record_passes example_schema l)" by (rule conjI)
  qed
  have vb: "validate_compendia example_fs example_schema ''Bad.txt'' = Inr False"
  proof (rule pre_check_samples_five_lines [THEN conjunct2, THEN conjunct1, THEN mp])
    from ob mb broken_line_fails show "open_file example_fs ''Bad.txt'' = Inr bad
        \<and> broken_line \<in> set (take 5 bad) \<and> \<not> record_passes example_schema broken_line" by blast
  qed
  have s1: "node_loader_load_files example_fs example_schema record_file (''Bad.txt'' # [''Good.txt'']) []
      = node_loader_load_files example_fs example_schema record_file [''Good.txt''] []"
    using vb
    by (rule pre_check_samples_five_lines
          [THEN conjunct2, THEN conjunct2, THEN conjunct2, THEN conjunct1, THEN mp])
  have s2: "node_loader_load_files example_fs example_schema record_file (''Good.txt'' # []) []
      = node_loader_load_files example_fs example_schema record_file [] (snd (record_file ''Good.txt'' []))"
    using vg
    by (rule pre_check_samples_five_lines
          [THEN conjunct2, THEN conjunct2, THEN conjunct2, THEN conjunct2, THEN conjunct1, THEN mp])
  have s3: "node_loader_load_files example_fs example_schema record_file [] (snd (record_file ''Good.txt'' []))
      = (None, [''Good.txt''])"
    by (simp add: record_file_def)
  have nv: "\<not> all_valid (\<lambda>c. c \<noteq> ''Bad.txt'') [''Good.txt'', ''Bad.txt'']" by simp
  have ld: "load example_fs (\<lambda>c. c \<noteq> ''Bad.txt'') biolink_toolkit empty_store [''Good.txt'', ''Bad.txt''] 1000 False
       = (Inr False, empty_store)"
    using nv
    by (rule pre_check_samples_five_lines
          [THEN conjunct2, THEN conjunct2, THEN conjunct2, THEN conjunct2, THEN conjunct2, THEN mp])
  from s1 s2 s3 have run: "node_loader_load_files example_fs example_schema record_file [''Bad.txt'', ''Good.txt''] []
       = (None, [''Good.txt''])" by (simp only:)
  from vg vb run ld show ?thesis by blast
qed


section \<open>Properties of the staged term-to-canonical writes\<close>

lemma getitem_member_json: "getitem (member_json m) ''i'' = Inr (JStr (fst m))"
  by (cases m rule: member_json.cases) simp_all

lemma getitem_nl_member_json: "getitem (nl_member_json m) ''identifier'' = Inr (JStr (fst m))"
  by (cases m rule: nl_member_json.cases) simp_all

lemma bump_prefix_present:
  "map_of sp t \<noteq> None \<Longrightarrow> \<exists>sp'. bump_prefix t p sp = Inr sp' \<and> map_of sp' t \<noteq> None"
  by (auto simp: bump_prefix_def update_conv')

lemma stage_equivalent_id_member:
  assumes "map_of (source_prefixes st) t \<noteq> None"
  shows "\<exists>st'. stage_equivalent_id identifier t (member_json m) st = (None, st')
           \<and> term2id_pipeline st' = term2id_pipeline st @ [Set (upper (fst m)) identifier]
           \<and> map_of (source_prefixes st') t \<noteq> None"
proof -
  from bump_prefix_present [OF assms]
  obtain sp' where "bump_prefix t (takeWhile (\<lambda>c. c \<noteq> CHR '':'') (fst m)) (source_prefixes st) = Inr sp'"
    and "map_of sp' t \<noteq> None" by blast
  then show ?thesis
    by (simp add: stage_equivalent_id_def getitem_member_json ebind_def on_value_def Let_def)
qed

lemma for_equivalent_ids_members:
  "map_of (source_prefixes st) t \<noteq> None \<Longrightarrow>
   \<exists>st'. for_equivalent_ids identifier t (map member_json members) st = (None, st')
         \<and> term2id_pipeline st' = term2id_pipeline st @ map (\<lambda>m. Set (upper (fst m)) identifier) members"
proof (induction members arbitrary: st)
  case Nil
  then show ?case by simp
next
  case (Cons m members)
  from stage_equivalent_id_member [OF Cons.prems, of "identifier" m]
  obtain st1 where s1: "stage_equivalent_id identifier t (member_json m) st = (None, st1)"
    and p1: "term2id_pipeline st1 = term2id_pipeline st @ [Set (upper (fst m)) identifier]"
    and k1: "map_of (source_prefixes st1) t \<noteq> None" by blast
  from Cons.IH [OF k1]
  obtain st' where s2: "for_equivalent_ids identifier t (map member_json members) st1 = (None, st')"
    and p2: "term2id_pipeline st' = term2id_pipeline st1 @ map (\<lambda>m. Set (upper (fst m)) identifier) members"
    by blast
  from s1 s2 p1 p2 show ?case by (simp add: and_then_def)
qed

lemma nl_stage_equivalent_id_member:
  assumes "map_of (nl_source_prefixes st) t \<noteq> None"
  shows "\<exists>st'. nl_stage_equivalent_id identifier t (nl_member_json m) st = (None, st')
           \<and> nl_term2id_pipeline st'
               = nl_term2id_pipeline st @ [Set (fst m) identifier, Set (upper (fst m)) identifier]
           \<and> map_of (nl_source_prefixes st') t \<noteq> None"
proof -
  from bump_prefix_present [OF assms]
  obtain sp' where "bump_prefix t (takeWhile (\<lambda>c. c \<noteq> CHR '':'') (fst m)) (nl_source_prefixes st) = Inr sp'"
    and "map_of sp' t \<noteq> None" by blast
  then show ?thesis
    by (simp add: nl_stage_equivalent_id_def getitem_nl_member_json ebind_def on_value_def Let_def)
qed

lemma nl_for_equivalent_ids_members:
  "map_of (nl_source_prefixes st) t \<noteq> None \<Longrightarrow>
   \<exists>st'. nl_for_equivalent_ids identifier t (map nl_member_json members) st = (None, st')
         \<and> nl_term2id_pipeline st'
             = nl_term2id_pipeline st
               @ concat (map (\<lambda>m. [Set (fst m) identifier, Set (upper (fst m)) identifier]) members)"
proof (induction members arbitrary: st)
  case Nil
  then show ?case by simp
next
  case (Cons m members)
  from nl_stage_equivalent_id_member [OF Cons.prems, of "identifier" m]
  obtain st1 where s1: "nl_stage_equivalent_id identifier t (nl_member_json m) st = (None, st1)"
    and p1: "nl_term2id_pipeline st1
               = nl_term2id_pipeline st @ [Set (fst m) identifier, Set (upper (fst m)) identifier]"
    and k1: "map_of (nl_source_prefixes st1) t \<noteq> None" by blast
  from Cons.IH [OF k1]
  obtain st' where s2: "nl_for_equivalent_ids identifier t (map nl_member_json members) st1 = (None, st')"
    and p2: "nl_term2id_pipeline st'
               = nl_term2id_pipeline st1
                 @ concat (map (\<lambda>m. [Set (fst m) identifier, Set (upper (fst m)) identifier]) members)"
    by blast
  from s1 s2 p1 p2 show ?case by (simp add: and_then_def)
qed

lemma stage_semantic_type_term2id:
  "term2id_pipeline (snd (stage_semantic_type (record_json ty ic members) identifier (JStr t) st))
     = term2id_pipeline st @ map (\<lambda>m. Set (upper (fst m)) identifier) members"
proof -
  define st1 where "st1 = (if map_of (source_prefixes st) (JStr t) = None
     then st\<lparr>source_prefixes := AList.update (JStr t) [] (source_prefixes st)\<rparr> else st)"
  have k: "map_of (source_prefixes st1) (JStr t) \<noteq> None"
    by (simp add: st1_def update_conv')
  have p: "term2id_pipeline st1 = term2id_pipeline st" by (simp add: st1_def)
  from for_equivalent_ids_members [OF k, of "identifier" members]
  obtain st2 where s2: "for_equivalent_ids identifier (JStr t) (map member_json members) st1 = (None, st2)"
    and p2: "term2id_pipeline st2 = term2id_pipeline st1 @ map (\<lambda>m. Set (upper (fst m)) identifier) members"
    by blast
  have items: "getitem (record_json ty ic members) ''identifiers'' = Inr (JArr (map member_json members))"
    by (simp add: record_json_def)
  have "term2id_pipeline (snd (stage_semantic_type (record_json ty ic members) identifier (JStr t) st))
     = term2id_pipeline st2"
    using s2 unfolding stage_semantic_type_def st1_def [symmetric]
    by (simp add: items ebind_def on_value_def and_then_def Let_def st1_def [symmetric]
        split: sum.splits)
  with p p2 show ?thesis by simp
qed

lemma nl_stage_semantic_type_term2id:
  "nl_term2id_pipeline
     (snd (nl_stage_semantic_type l (nl_record_json idj types members) identifier (JStr t) st))
     = nl_term2id_pipeline st
       @ concat (map (\<lambda>m. [Set (fst m) identifier, Set (upper (fst m)) identifier]) members)"
proof -
  define st0 where "st0 = st\<lparr>nl_semantic_types := List.insert (JStr t) (nl_semantic_types st)\<rparr>"
  define st1 where "st1 = (if map_of (nl_source_prefixes st0) (JStr t) = None
     then st0\<lparr>nl_source_prefixes := AList.update (JStr t) [] (nl_source_prefixes st0)\<rparr> else st0)"
  have k: "map_of (nl_source_prefixes st1) (JStr t) \<noteq> None"
    by (simp add: st1_def update_conv')
  have p: "nl_term2id_pipeline st1 = nl_term2id_pipeline st" by (simp add: st1_def st0_def)
  from nl_for_equivalent_ids_members [OF k, of "identifier" members]
  obtain st2 where s2: "nl_for_equivalent_ids identifier (JStr t) (map nl_member_json members) st1 = (None, st2)"
    and p2: "nl_term2id_pipeline st2
               = nl_term2id_pipeline st1
                 @ concat (map (\<lambda>m. [Set (fst m) identifier, Set (upper (fst m)) identifier]) members)"
    by blast
  have items: "getitem (nl_record_json idj types members) ''equivalent_identifiers''
      = Inr (JArr (map nl_member_json members))"
    by (simp add: nl_record_json_def)
  have "nl_term2id_pipeline
     (snd (nl_stage_semantic_type l (nl_record_json idj types members) identifier (JStr t) st))
     = nl_term2id_pipeline st2"
    using s2 unfolding nl_stage_semantic_type_def
    by (simp add: items ebind_def on_value_def and_then_def Let_def st1_def [symmetric]
        st0_def [symmetric] split: sum.splits)
  with p p2 show ?thesis by simp
qed

text \<open>
  C3, as the code has it. For a record of any type, with any members, and any semantic
  type of its chain, the statements of \<open>load_compendium.py\<close> after line 208 stage exactly
  one term-to-canonical write for every member identifier, under the upper-cased
  identifier; the loader of \<open>loader.py\<close> stages exactly two for every member identifier,
  one under the identifier as it is written and one under its upper-cased form.
\<close>

theorem staged_term_to_canonical_writes:
  "term2id_pipeline (snd (stage_semantic_type (record_json ty ic members) identifier (JStr t) st))
     = term2id_pipeline st @ map (\<lambda>m. Set (upper (fst m)) identifier) members
   \<and> nl_term2id_pipeline
       (snd (nl_stage_semantic_type l (nl_record_json idj types members) identifier (JStr t) nst))
     = nl_term2id_pipeline nst
       @ concat (map (\<lambda>m. [Set (fst m) identifier, Set (upper (fst m)) identifier]) members)"
  by (simp only: stage_semantic_type_term2id nl_stage_semantic_type_term2id)

text \<open>
  C3, as the claim states it, fails for \<open>load_compendium.py\<close>: for the record with the
  member \<open>doid:3812\<close> the statements after line 208 stage the keys \<open>MONDO:0005002\<close> and
  \<open>DOID:3812\<close> only, and after the ingestion of the file the store has no entry under the
  identifier as it is written.
\<close>

theorem raw_case_entry_not_written:
  "term2id_pipeline (snd (stage_semantic_type lower_record (JStr ''MONDO:0005002'')
       (JStr ''biolink:Disease'') (initial_lstate empty_store)))
     = [Set ''MONDO:0005002'' (JStr ''MONDO:0005002''), Set ''DOID:3812'' (JStr ''MONDO:0005002'')]
   \<and> map_of (kv (eq_id_to_id_db (snd
        (load_compendium (\<lambda>n. Some [lower_line]) ''Disease.txt'' 1000 empty_store biolink_toolkit False))))
        ''doid:3812'' = None"
proof -
  have a: "term2id_pipeline (snd (stage_semantic_type lower_record (JStr ''MONDO:0005002'')
       (JStr ''biolink:Disease'') (initial_lstate empty_store)))
     = [Set ''MONDO:0005002'' (JStr ''MONDO:0005002''), Set ''DOID:3812'' (JStr ''MONDO:0005002'')]"
    by (simp add: lower_record_def stage_semantic_type_term2id initial_lstate_def upper_def upper_char_def)
  have b: "map_of (kv (eq_id_to_id_db (snd
        (load_compendium (\<lambda>n. Some [lower_line]) ''Disease.txt'' 1000 empty_store biolink_toolkit False))))
        ''doid:3812'' = None"
    by (simp add: load_compendium_result empty_store_def empty_db_def)
  from a b show ?thesis by (rule conjI)
qed

end
